theory Spec2Isabelle
  imports Main "HOL-Library.Word"
begin

unbundle bit_operations_syntax

section \<open>Time and durations\<close>

text \<open>
  Go's \<open>time.Duration\<close> is an \<open>int64\<close> count of nanoseconds: arithmetic wraps around
  and comparisons are signed (\<open><s\<close>, \<open>\<le>s\<close>). A \<open>time.Time\<close> is modelled as the
  number of nanoseconds since Go's zero instant, so that \<open>IsZero\<close> is equality with 0;
  \<open>time.Now()\<close> is a parameter \<open>now\<close> of every operation that reads the clock.
\<close>

type_synonym duration = "64 word"
type_synonym time = int

definition Millisecond :: duration where
  "Millisecond = 1000000"

definition Second :: duration where
  "Second = 1000000000"

definition Minute :: duration where
  "Minute = 60 * Second"

definition maxDuration :: int where
  "maxDuration = 2 ^ 63 - 1"

definition minDuration :: int where
  "minDuration = - (2 ^ 63)"

definition IsZero :: "time \<Rightarrow> bool" where
  "IsZero t = (t = 0)"

text \<open>\<open>Time.Sub\<close> saturates at the largest and smallest duration.\<close>

definition Sub :: "time \<Rightarrow> time \<Rightarrow> duration" where
  "Sub t u =
     (let d = t - u
      in if maxDuration < d then word_of_int maxDuration
         else if d < minDuration then word_of_int minDuration
         else word_of_int d)"

text \<open>\<open>time.Since(t)\<close> is \<open>time.Now().Sub(t)\<close>.\<close>

definition Since :: "time \<Rightarrow> time \<Rightarrow> duration" where
  "Since now t = Sub now t"

section \<open>The countdown primitive: TimerData\<close>

text \<open>
  The completion handler is a closure. The only closure the repository installs is the
  one of \<open>TimerManager.Start\<close>, which captures the manager \<open>t\<close> and closes
  \<open>t.doneCh\<close> unless it is closed already; \<open>CloseDone t\<close> stands for it.
\<close>

datatype handler = CloseDone nat

text \<open>
  Field \<open>Timer\<close> is the \<open>*time.Timer\<close> returned by \<open>time.AfterFunc\<close> (an address of
  the store of runtime timers, \<open>None\<close> for nil). The mutex \<open>mu\<close> has no field: every
  method runs as one atomic function of the store.
\<close>

record TimerData =
  Timer :: "nat option"
  Duration :: duration
  BreakDuration :: duration
  IsComplete :: bool
  StartedAt :: time
  CompletedAt :: time
  Handler :: "handler option"

definition NewTimer :: "duration \<Rightarrow> TimerData" where
  "NewTimer d =
     \<lparr> Timer = None, Duration = d, BreakDuration = 1 * Minute, IsComplete = False,
       StartedAt = 0, CompletedAt = 0, Handler = None \<rparr>"

definition Elapsed :: "TimerData \<Rightarrow> time \<Rightarrow> duration" where
  "Elapsed t now =
     (if IsZero (StartedAt t) \<or> IsComplete t then 0 else Since now (StartedAt t))"

definition Remaining :: "TimerData \<Rightarrow> time \<Rightarrow> duration" where
  "Remaining t now =
     (let elapsed = Elapsed t now
      in if Duration t <s elapsed then 0 else Duration t - elapsed)"

section \<open>The store\<close>

text \<open>
  \<open>TimerData\<close> and \<open>TimerManager\<close> values are shared through pointers, and a runtime
  timer keeps the \<open>TimerData\<close> it was armed for alive, so objects live in a store and
  are named by addresses. A channel is its closed flag and its buffer; a runtime timer
  (\<open>time.Timer\<close>) records whether its fire is still pending and which \<open>TimerData\<close>
  its callback belongs to.
\<close>

record chan =
  closed :: bool
  buf :: "duration list"
  cap :: nat

record rtimer =
  pending :: bool
  owner :: nat
  delay :: duration

text \<open>
  Field \<open>tmTimer\<close> is the field \<open>Timer *TimerData\<close> of the source's \<open>TimerManager\<close>
  (renamed, since \<open>Timer\<close> is the field of \<open>TimerData\<close>).
\<close>

record TimerManager =
  subs :: "nat list"
  tmTimer :: "nat option"
  lastValue :: duration
  updates :: nat
  stopCh :: nat
  doneCh :: nat

record world =
  timerDatas :: "nat \<rightharpoonup> TimerData"
  rtimers :: "nat \<rightharpoonup> rtimer"
  chans :: "nat \<rightharpoonup> chan"
  managers :: "nat \<rightharpoonup> TimerManager"
  nextAddr :: nat

definition emptyWorld :: world where
  "emptyWorld =
     \<lparr> timerDatas = Map.empty, rtimers = Map.empty, chans = Map.empty,
       managers = Map.empty, nextAddr = 1 \<rparr>"

text \<open>\<open>make(chan T, n)\<close>: a fresh, open, empty channel. Address 0 is nil.\<close>

definition makeChan :: "nat \<Rightarrow> world \<Rightarrow> nat \<times> world" where
  "makeChan n w =
     (nextAddr w,
      w\<lparr> chans := (chans w)(nextAddr w \<mapsto> \<lparr> closed = False, buf = [], cap = n \<rparr>),
         nextAddr := Suc (nextAddr w) \<rparr>)"

text \<open>Allocation of a \<open>TimerData\<close> (the \<open>&TimerData{...}\<close> of \<open>NewTimer\<close>).\<close>

definition allocTimer :: "TimerData \<Rightarrow> world \<Rightarrow> nat \<times> world" where
  "allocTimer td w =
     (nextAddr w,
      w\<lparr> timerDatas := (timerDatas w)(nextAddr w \<mapsto> td), nextAddr := Suc (nextAddr w) \<rparr>)"

text \<open>\<open>(*time.Timer).Stop\<close>: the pending fire, if any, is cancelled.\<close>

definition stopRTimer :: "nat \<Rightarrow> world \<Rightarrow> world" where
  "stopRTimer r w =
     (case rtimers w r of
        None \<Rightarrow> w
      | Some rt \<Rightarrow> w\<lparr> rtimers := (rtimers w)(r \<mapsto> rt\<lparr> pending := False \<rparr>) \<rparr>)"

text \<open>
  \<open>time.AfterFunc(d, f)\<close> for the closure \<open>f\<close> of \<open>StartTimer\<close> on the \<open>TimerData\<close>
  at address \<open>a\<close>.
\<close>

definition AfterFunc :: "duration \<Rightarrow> nat \<Rightarrow> world \<Rightarrow> nat \<times> world" where
  "AfterFunc d a w =
     (nextAddr w,
      w\<lparr> rtimers := (rtimers w)(nextAddr w \<mapsto> \<lparr> pending = True, owner = a, delay = d \<rparr>),
         nextAddr := Suc (nextAddr w) \<rparr>)"

text \<open>
  Methods on a pointer return \<open>None\<close> where Go panics (a nil or dangling receiver or
  field, a send on a closed channel, closing a closed channel).
\<close>

definition StartTimer :: "nat \<Rightarrow> time \<Rightarrow> world \<Rightarrow> world option" where
  "StartTimer a now w =
     (case timerDatas w a of
        None \<Rightarrow> None
      | Some td \<Rightarrow>
          (let w1 = (case Timer td of None \<Rightarrow> w | Some r \<Rightarrow> stopRTimer r w);
               (r', w2) = AfterFunc (Duration td) a w1
           in Some (w2\<lparr> timerDatas := (timerDatas w2)
                      (a \<mapsto> td\<lparr> StartedAt := now, IsComplete := False, Timer := Some r' \<rparr>) \<rparr>)))"

definition StopTimer :: "nat \<Rightarrow> world \<Rightarrow> world option" where
  "StopTimer a w =
     (case timerDatas w a of
        None \<Rightarrow> None
      | Some td \<Rightarrow> Some (case Timer td of None \<Rightarrow> w | Some r \<Rightarrow> stopRTimer r w))"

text \<open>
  The handler installed by \<open>TimerManager.Start\<close>: under the manager's lock, close
  \<open>t.doneCh\<close> unless a receive on it is ready (it is closed already). The handler reads
  \<open>t.doneCh\<close> when it runs, not when it is installed.
\<close>

definition runHandler :: "handler \<Rightarrow> world \<Rightarrow> world option" where
  "runHandler h w =
     (case h of CloseDone t \<Rightarrow>
        (case managers w t of
           None \<Rightarrow> None
         | Some m \<Rightarrow>
             (case chans w (doneCh m) of
                None \<Rightarrow> None
              | Some c \<Rightarrow>
                  if closed c then Some w
                  else Some (w\<lparr> chans := (chans w)(doneCh m \<mapsto> c\<lparr> closed := True \<rparr>) \<rparr>))))"

text \<open>
  The fire of the runtime timer \<open>r\<close> at instant \<open>now\<close>: the closure passed to
  \<open>time.AfterFunc\<close> in \<open>StartTimer\<close>. A timer that is not pending (stopped, or fired
  already) does not fire.
\<close>

definition fire :: "nat \<Rightarrow> time \<Rightarrow> world \<Rightarrow> world option" where
  "fire r now w =
     (case rtimers w r of
        None \<Rightarrow> Some w
      | Some rt \<Rightarrow>
          if \<not> pending rt then Some w
          else
            (case timerDatas w (owner rt) of
               None \<Rightarrow> None
             | Some td \<Rightarrow>
                 (let w1 = w\<lparr> rtimers := (rtimers w)(r \<mapsto> rt\<lparr> pending := False \<rparr>),
                             timerDatas := (timerDatas w)
                               (owner rt \<mapsto> td\<lparr> IsComplete := True, CompletedAt := now \<rparr>) \<rparr>
                  in case Handler td of
                       None \<Rightarrow> Some w1
                     | Some h \<Rightarrow> runHandler h w1)))"

section \<open>The timer coordinator: TimerManager\<close>

text \<open>
  \<open>NewTimerManager\<close> allocates the primitive, the three channels and the manager.
  The literal sets no \<open>lastValue\<close> and no \<open>subs\<close>: they are Go's zero values. The
  broadcaster goroutine it starts is the source of the \<open>tick\<close> events below.
\<close>

definition NewTimerManager :: "duration \<Rightarrow> world \<Rightarrow> nat \<times> world" where
  "NewTimerManager d w =
     (let (a, w1) = allocTimer (NewTimer d) w;
          (u, w2) = makeChan 0 w1;
          (s, w3) = makeChan 0 w2;
          (dn, w4) = makeChan 0 w3
      in (nextAddr w4,
          w4\<lparr> managers := (managers w4)
                 (nextAddr w4 \<mapsto> \<lparr> subs = [], tmTimer = Some a, lastValue = 0,
                                 updates = u, stopCh = s, doneCh = dn \<rparr>),
              nextAddr := Suc (nextAddr w4) \<rparr>))"

definition Subscribe :: "nat \<Rightarrow> world \<Rightarrow> (nat \<times> world) option" where
  "Subscribe t w =
     (let (ch, w1) = makeChan 10 w
      in case managers w1 t of
           None \<Rightarrow> None
         | Some m \<Rightarrow> Some (ch, w1\<lparr> managers := (managers w1)(t \<mapsto> m\<lparr> subs := subs m @ [ch] \<rparr>) \<rparr>))"

text \<open>
  \<open>select { case ch <- v: default: }\<close>: the value is queued when the buffer has room
  and dropped otherwise; a nil channel is never ready; a send on a closed channel panics.
\<close>

definition trySend :: "duration \<Rightarrow> nat \<Rightarrow> world \<Rightarrow> world option" where
  "trySend v ch w =
     (case chans w ch of
        None \<Rightarrow> Some w
      | Some c \<Rightarrow>
          if closed c then None
          else if length (buf c) < cap c
               then Some (w\<lparr> chans := (chans w)(ch \<mapsto> c\<lparr> buf := buf c @ [v] \<rparr>) \<rparr>)
               else Some w)"

fun sendAll :: "duration \<Rightarrow> nat list \<Rightarrow> world \<Rightarrow> world option" where
  "sendAll v [] w = Some w"
| "sendAll v (ch # chs) w =
     (case trySend v ch w of None \<Rightarrow> None | Some w1 \<Rightarrow> sendAll v chs w1)"

text \<open>One pass of the \<open>ticker.C\<close> case of \<open>broadcast\<close>, at instant \<open>now\<close>.\<close>

definition tick :: "nat \<Rightarrow> time \<Rightarrow> world \<Rightarrow> world option" where
  "tick t now w =
     (case managers w t of
        None \<Rightarrow> None
      | Some m \<Rightarrow>
          (case tmTimer m of
             None \<Rightarrow> None
           | Some a \<Rightarrow>
               (case timerDatas w a of
                  None \<Rightarrow> None
                | Some td \<Rightarrow>
                    (let remaining = Remaining td now
                     in sendAll remaining (subs m)
                          (w\<lparr> managers := (managers w)(t \<mapsto> m\<lparr> lastValue := remaining \<rparr>) \<rparr>)))))"

definition Stop :: "nat \<Rightarrow> world \<Rightarrow> world option" where
  "Stop t w =
     (case managers w t of
        None \<Rightarrow> None
      | Some m \<Rightarrow> (case tmTimer m of None \<Rightarrow> None | Some a \<Rightarrow> StopTimer a w))"

definition Reset :: "nat \<Rightarrow> world \<Rightarrow> world option" where
  "Reset t w =
     (case managers w t of
        None \<Rightarrow> None
      | Some m \<Rightarrow>
          (case tmTimer m of
             None \<Rightarrow> None
           | Some a \<Rightarrow>
               (case timerDatas w a of
                  None \<Rightarrow> None
                | Some td \<Rightarrow>
                    (let d = Duration td;
                         (a', w1) = allocTimer (NewTimer d) w;
                         (c, w2) = makeChan 0 w1
                     in Some (w2\<lparr> managers := (managers w2)
                                (t \<mapsto> m\<lparr> tmTimer := Some a', lastValue := d, doneCh := c \<rparr>) \<rparr>)))))"

definition Start :: "nat \<Rightarrow> time \<Rightarrow> world \<Rightarrow> world option" where
  "Start t now w =
     (case managers w t of
        None \<Rightarrow> None
      | Some m \<Rightarrow>
          (case tmTimer m of
             None \<Rightarrow> Some w
           | Some a \<Rightarrow>
               (case timerDatas w a of
                  None \<Rightarrow> None
                | Some td \<Rightarrow>
                    StartTimer a now
                      (w\<lparr> timerDatas := (timerDatas w)
                           (a \<mapsto> td\<lparr> Handler := Some (CloseDone t) \<rparr>) \<rparr>))))"

definition Inc :: "nat \<Rightarrow> world \<Rightarrow> world option" where
  "Inc t w =
     (case managers w t of
        None \<Rightarrow> None
      | Some m \<Rightarrow>
          (case tmTimer m of
             None \<Rightarrow> None
           | Some a \<Rightarrow>
               (case timerDatas w a of
                  None \<Rightarrow> None
                | Some td \<Rightarrow>
                    Some (w\<lparr> timerDatas := (timerDatas w)
                           (a \<mapsto> td\<lparr> Duration := Duration td + 5 * Second \<rparr>) \<rparr>))))"

definition Dec :: "nat \<Rightarrow> world \<Rightarrow> world option" where
  "Dec t w =
     (case managers w t of
        None \<Rightarrow> None
      | Some m \<Rightarrow>
          (case tmTimer m of
             None \<Rightarrow> None
           | Some a \<Rightarrow>
               (case timerDatas w a of
                  None \<Rightarrow> None
                | Some td \<Rightarrow>
                    Some (w\<lparr> timerDatas := (timerDatas w)
                           (a \<mapsto> td\<lparr> Duration :=
                                  (if 5 * Second <s Duration td
                                   then Duration td - 5 * Second else 0) \<rparr>) \<rparr>))))"

definition Snapshot :: "nat \<Rightarrow> world \<Rightarrow> duration option" where
  "Snapshot t w = (case managers w t of None \<Rightarrow> None | Some m \<Rightarrow> Some (lastValue m))"

definition Done :: "nat \<Rightarrow> world \<Rightarrow> nat option" where
  "Done t w = (case managers w t of None \<Rightarrow> None | Some m \<Rightarrow> Some (doneCh m))"

text \<open>
  Readers used to state the claims: the duration of the primitive a manager holds, and
  whether a channel has been closed (a receive on it is ready).
\<close>

definition durationOf :: "nat \<Rightarrow> world \<Rightarrow> duration option" where
  "durationOf t w =
     (case managers w t of
        None \<Rightarrow> None
      | Some m \<Rightarrow>
          (case tmTimer m of
             None \<Rightarrow> None
           | Some a \<Rightarrow> (case timerDatas w a of None \<Rightarrow> None | Some td \<Rightarrow> Some (Duration td))))"

definition isClosed :: "nat \<Rightarrow> world \<Rightarrow> bool" where
  "isClosed ch w = (case chans w ch of None \<Rightarrow> False | Some c \<Rightarrow> closed c)"

text \<open>
  A store is well formed when nothing is allocated at or beyond \<open>nextAddr\<close>, so that
  every allocation returns an address that was not in use.
\<close>

definition wf :: "world \<Rightarrow> bool" where
  "wf w =
     (\<forall>x. nextAddr w \<le> x \<longrightarrow>
        timerDatas w x = None \<and> rtimers w x = None \<and> chans w x = None \<and>
        managers w x = None)"

section \<open>Package polybar: the injected manager and the command dispatch\<close>

text \<open>
  The package-level variables of \<open>polybar.go\<close>. \<open>timerManager\<close> is a pointer
  (\<open>None\<close> for nil). The toggle callback is an arbitrary external function; it is
  modelled as a function on the state \<open>gui\<close> of whoever registered it. \<open>stopOnce\<close> is
  a \<open>sync.Once\<close> (its \<open>done\<close> flag and the holder of its mutex), \<open>wg\<close> the counter
  of the \<open>sync.WaitGroup\<close>, \<open>stopping\<close> whether the channel of that name has been
  closed. \<open>store\<close> is the heap the manager lives in.
\<close>

record once =
  onceDone :: bool
  onceM :: "nat option"

record 'g polybar =
  fifoPipePath :: string
  guiToggleCallback :: "('g \<Rightarrow> 'g) option"
  stopOnce :: once
  wg :: int
  stopping :: bool
  timerManager :: "nat option"
  gui :: 'g
  store :: world

definition SetTimerManager :: "nat option \<Rightarrow> 'g polybar \<Rightarrow> 'g polybar" where
  "SetTimerManager tm p = p\<lparr> timerManager := tm \<rparr>"

definition getTimerManager :: "'g polybar \<Rightarrow> nat option" where
  "getTimerManager p = timerManager p"

definition AddHandler :: "('g \<Rightarrow> 'g) option \<Rightarrow> 'g polybar \<Rightarrow> 'g polybar" where
  "AddHandler f p = p\<lparr> guiToggleCallback := f \<rparr>"

text \<open>
  The null-safe wrappers. \<open>None\<close> is a panic of the manager's method; the wrappers of
  \<open>Subscribe\<close> and \<open>Snapshot\<close> carry the suffix \<open>_pb\<close>, the methods of the manager
  having the plain names.
\<close>

definition TimerStart :: "time \<Rightarrow> 'g polybar \<Rightarrow> 'g polybar option" where
  "TimerStart now p =
     (case getTimerManager p of
        None \<Rightarrow> Some p
      | Some tm \<Rightarrow>
          (case Start tm now (store p) of None \<Rightarrow> None | Some w \<Rightarrow> Some (p\<lparr> store := w \<rparr>)))"

definition TimerStop :: "'g polybar \<Rightarrow> 'g polybar option" where
  "TimerStop p =
     (case getTimerManager p of
        None \<Rightarrow> Some p
      | Some tm \<Rightarrow>
          (case Stop tm (store p) of None \<Rightarrow> None | Some w \<Rightarrow> Some (p\<lparr> store := w \<rparr>)))"

definition TimerInc :: "'g polybar \<Rightarrow> 'g polybar option" where
  "TimerInc p =
     (case getTimerManager p of
        None \<Rightarrow> Some p
      | Some tm \<Rightarrow>
          (case Inc tm (store p) of None \<Rightarrow> None | Some w \<Rightarrow> Some (p\<lparr> store := w \<rparr>)))"

definition TimerDec :: "'g polybar \<Rightarrow> 'g polybar option" where
  "TimerDec p =
     (case getTimerManager p of
        None \<Rightarrow> Some p
      | Some tm \<Rightarrow>
          (case Dec tm (store p) of None \<Rightarrow> None | Some w \<Rightarrow> Some (p\<lparr> store := w \<rparr>)))"

text \<open>The channel returned is \<open>None\<close> for Go's nil.\<close>

definition Subscribe_pb :: "'g polybar \<Rightarrow> (nat option \<times> 'g polybar) option" where
  "Subscribe_pb p =
     (case getTimerManager p of
        None \<Rightarrow> Some (None, p)
      | Some tm \<Rightarrow>
          (case Subscribe tm (store p) of
             None \<Rightarrow> None
           | Some (ch, w) \<Rightarrow> Some (Some ch, p\<lparr> store := w \<rparr>)))"

definition Snapshot_pb :: "'g polybar \<Rightarrow> duration option" where
  "Snapshot_pb p =
     (case getTimerManager p of None \<Rightarrow> Some 0 | Some tm \<Rightarrow> Snapshot tm (store p))"

text \<open>
  The \<open>switch cmd\<close> of \<open>handle_cmds\<close> for one line \<open>cmd = scanner.Text()\<close>, read at
  instant \<open>now\<close>, in the order of the source's cases. The log lines are not modelled.
\<close>

definition dispatch :: "string \<Rightarrow> time \<Rightarrow> 'g polybar \<Rightarrow> 'g polybar option" where
  "dispatch cmd now p =
     (if cmd = ''start'' then TimerStart now p
      else if cmd = ''gui'' then
        (case guiToggleCallback p of
           None \<Rightarrow> Some p
         | Some cb \<Rightarrow> Some (p\<lparr> gui := cb (gui p) \<rparr>))
      else if cmd = ''inc'' then TimerInc p
      else if cmd = ''dec'' then TimerDec p
      else if cmd = ''stop'' then TimerStop p
      else Some p)"

text \<open>The loop \<open>for scanner.Scan() { ... }\<close> over the lines of one open of the pipe.\<close>

fun readLines :: "(string \<times> time) list \<Rightarrow> 'g polybar \<Rightarrow> 'g polybar option" where
  "readLines [] p = Some p"
| "readLines ((cmd, now) # rest) p =
     (case dispatch cmd now p of None \<Rightarrow> None | Some p1 \<Rightarrow> readLines rest p1)"

text \<open>The package as it is initialised, before \<open>Init\<close>, \<open>AddHandler\<close> or \<open>SetTimerManager\<close>.\<close>

definition initPolybar :: "'g \<Rightarrow> world \<Rightarrow> 'g polybar" where
  "initPolybar g w =
     \<lparr> fifoPipePath = [], guiToggleCallback = None,
       stopOnce = \<lparr> onceDone = False, onceM = None \<rparr>, wg = 0, stopping = False,
       timerManager = None, gui = g, store = w \<rparr>"

section \<open>Package polybar: allocation of the named pipe\<close>

text \<open>
  The operating system is a parameter: what \<open>syscall.Mkfifo\<close>, \<open>os.Lstat\<close> and
  \<open>os.OpenFile(path, O_WRONLY|O_NONBLOCK, 0)\<close> answer for a path (\<open>None\<close> is a nil error),
  and the process id. \<open>mkfifoUnique\<close> calls each of them at most once for a path and
  returns at the first success, so a function of the path gives every run of it.
  A \<open>syscall.Errno\<close> satisfies \<open>errors.Is(err, os.ErrExist)\<close> when it is \<open>EEXIST\<close> or
  \<open>ENOTEMPTY\<close>.
\<close>

datatype errno = EEXIST | ENOTEMPTY | ENOENT | EACCES | EPERM | ENXIO | Errno nat

type_synonym FileMode = "32 word"

definition ModeNamedPipe :: FileMode where
  "ModeNamedPipe = push_bit 25 1"

definition ModePerm :: FileMode where
  "ModePerm = 511"

definition Perm :: "FileMode \<Rightarrow> FileMode" where
  "Perm m = m AND ModePerm"

record os_env =
  Getpid :: int
  Mkfifo :: "string \<Rightarrow> 32 word \<Rightarrow> errno option"
  Lstat :: "string \<Rightarrow> errno + FileMode"
  OpenFile :: "string \<Rightarrow> errno option"

definition isErrExist :: "errno \<Rightarrow> bool" where
  "isErrExist e = (e = EEXIST \<or> e = ENOTEMPTY)"

text \<open>The verb \<open>%d\<close> of \<open>fmt.Sprintf\<close>: decimal digits, with a sign when negative.\<close>

fun digits :: "nat \<Rightarrow> string" where
  "digits n =
     (if n < 10 then [''0123456789'' ! n]
      else digits (n div 10) @ [''0123456789'' ! (n mod 10)])"

declare digits.simps [simp del]

definition fmt_d :: "int \<Rightarrow> string" where
  "fmt_d i = (if i < 0 then CHR ''-'' # digits (nat (- i)) else digits (nat i))"

datatype alloc_error = MkfifoError string errno | Exhausted string

definition canUseFifo :: "os_env \<Rightarrow> string \<Rightarrow> bool" where
  "canUseFifo env path = (case OpenFile env path of Some err \<Rightarrow> False | None \<Rightarrow> True)"

text \<open>The path tried in pass \<open>i\<close> of the loop: \<open>"%s.%d"\<close> for 0 and \<open>"%s.%d.%d"\<close> after.\<close>

definition candidate :: "string \<Rightarrow> int \<Rightarrow> nat \<Rightarrow> string" where
  "candidate base pid i =
     (if i = 0 then base @ ''.'' @ fmt_d pid
      else base @ ''.'' @ fmt_d pid @ ''.'' @ fmt_d (int i))"

text \<open>
  The loop \<open>for i := 0; i < 1000; i++\<close> from pass \<open>i\<close> on; every \<open>continue\<close> is the
  recursive call.
\<close>

function mkfifoLoop :: "os_env \<Rightarrow> string \<Rightarrow> FileMode \<Rightarrow> nat \<Rightarrow> alloc_error + string" where
  "mkfifoLoop env base mode i =
     (if i < 1000 then
        (let path = candidate base (Getpid env) i
         in case Mkfifo env path (Perm mode) of
              None \<Rightarrow> Inr path
            | Some err \<Rightarrow>
                if isErrExist err \<or> err = EEXIST then
                  (case Lstat env path of
                     Inl statErr \<Rightarrow> mkfifoLoop env base mode (Suc i)
                   | Inr fi \<Rightarrow>
                       if fi AND ModeNamedPipe \<noteq> 0 then
                         (if canUseFifo env path then Inr path
                          else mkfifoLoop env base mode (Suc i))
                       else mkfifoLoop env base mode (Suc i))
                else Inl (MkfifoError path err))
      else Inl (Exhausted base))"
  by pat_completeness auto
termination
  by (relation "measure (\<lambda>(env, base, mode, i). 1000 - i)") auto

declare mkfifoLoop.simps [simp del]

definition mkfifoUnique :: "os_env \<Rightarrow> string \<Rightarrow> FileMode \<Rightarrow> alloc_error + string" where
  "mkfifoUnique env base mode = mkfifoLoop env base mode 0"

text \<open>
  The words of the claim about one candidate, as answers of the operating system: its
  path already exists (\<open>Mkfifo\<close> fails with \<open>EEXIST\<close>, or with \<open>ENOTEMPTY\<close>, which
  \<open>errors.Is\<close> takes for \<open>os.ErrExist\<close> as well); the
  existing entry is a named pipe (\<open>Lstat\<close> succeeds and shows the bit
  \<open>ModeNamedPipe\<close>). That the non-blocking open for writing succeeds is
  \<open>OpenFile env path = None\<close>.
\<close>

definition pathExists :: "os_env \<Rightarrow> FileMode \<Rightarrow> string \<Rightarrow> bool" where
  "pathExists env mode path =
     (Mkfifo env path (Perm mode) = Some EEXIST \<or>
      Mkfifo env path (Perm mode) = Some ENOTEMPTY)"

definition isNamedPipe :: "os_env \<Rightarrow> string \<Rightarrow> bool" where
  "isNamedPipe env path =
     (case Lstat env path of Inl statErr \<Rightarrow> False | Inr fi \<Rightarrow> fi AND ModeNamedPipe \<noteq> 0)"

text \<open>
  Candidate \<open>j\<close> is one to skip: its path exists, and the entry is not a named pipe
  or the operating system refuses the non-blocking open for writing
  (\<open>OpenFile env path\<close> is an error).
\<close>

definition skipped :: "os_env \<Rightarrow> string \<Rightarrow> FileMode \<Rightarrow> nat \<Rightarrow> bool" where
  "skipped env base mode j =
     (pathExists env mode (candidate base (Getpid env) j) \<and>
      \<not> (isNamedPipe env (candidate base (Getpid env) j) \<and>
         OpenFile env (candidate base (Getpid env) j) = None))"

section \<open>Package polybar: Shutdown under interleaving\<close>

text \<open>
  Any number of goroutines call \<open>Shutdown\<close>; invocation \<open>k\<close> is at one of the program
  points below. \<open>stopOnce.Do(f)\<close> is \<open>sync.Once\<close>: a first read of \<open>done\<close>
  (\<open>AtDo\<close>), then, in \<open>doSlow\<close>, the lock of its mutex (\<open>AtLock\<close>), a second read of
  \<open>done\<close> (\<open>InOnce\<close>), the body \<open>f\<close> (\<open>AtClose\<close>: \<open>close(stopping)\<close>, \<open>AtRemove\<close>:
  \<open>os.Remove(fifoPipePath)\<close> when the path is not empty), the store of \<open>done\<close>
  (\<open>AtStoreDone\<close>) and the unlock (\<open>AtUnlock\<close>). \<open>AtWait\<close> is \<open>wg.Wait()\<close>.
  Closing a closed channel panics.
\<close>

datatype spc =
  NotCalled | AtDo | AtLock | InOnce | AtClose | AtRemove | AtStoreDone | AtUnlock
  | AtWait | Returned | Panicked

text \<open>
  The dispatch loop \<open>handle_cmds\<close> is started once, by \<open>startOnce.Do\<close> in \<open>Main\<close>
  after \<open>wg.Add(1)\<close>, and \<open>wg.Done()\<close> runs as it returns. Its program points:
  \<open>LTop\<close>, the \<open>select\<close> with \<open>default\<close> at the head of the loop; \<open>LOpen\<close>, about to
  call \<open>os.OpenFile(fifoPipePath, O_RDONLY, ...)\<close>; \<open>LOpening\<close>, inside that call on
  an existing pipe, which blocks until a writer opens the pipe; \<open>LOpenErr\<close>, the
  \<open>select\<close> between \<open>stopping\<close> and \<open>time.After(time.Second)\<close> after a failed
  open; \<open>LRead\<close>, the loop over \<open>scanner.Scan()\<close>, which blocks while a writer holds
  the pipe open and has written nothing more; \<open>LClosing\<close>, the \<open>select\<close> between
  \<open>stopping\<close> and \<open>time.After(100 * time.Millisecond)\<close> after the file is closed.
  The loop reads \<open>stopping\<close> at \<open>LTop\<close>, \<open>LOpenErr\<close> and \<open>LClosing\<close> only.
\<close>

datatype lpc = NotStarted | LTop | LOpen | LOpening | LOpenErr | LRead | LClosing | Exited

text \<open>
  The state of the process and of its pipe: the package variables, the set \<open>files\<close>
  of paths at which a named pipe exists, the number of external writers that hold the
  pipe open, the lines written to it and not yet read, the program point of every
  invocation of \<open>Shutdown\<close>, the program point of the dispatch loop, and the \<open>trace\<close>
  of what the bodies of \<open>stopOnce.Do\<close> did, in order: \<open>EvClose k\<close> when invocation
  \<open>k\<close> closed \<open>stopping\<close>, \<open>EvRemove k p\<close> when it called \<open>os.Remove(p)\<close>.
\<close>

datatype event = EvClose nat | EvRemove nat string

record 'g sys =
  pkg :: "'g polybar"
  files :: "string set"
  writers :: nat
  pipe :: "string list"
  callers :: "nat \<Rightarrow> spc"
  loop :: lpc
  trace :: "event list"

text \<open>
  What can happen next: invocation \<open>k\<close> of \<open>Shutdown\<close> takes a step; \<open>Main\<close> starts
  the dispatch loop; the loop goes on (\<open>LoopGo now\<close>: the \<open>default\<close> or timer branch
  of a \<open>select\<close>, a return of \<open>os.OpenFile\<close>, a return of \<open>scanner.Scan()\<close> at
  instant \<open>now\<close>); the loop takes the branch \<open>case <-stopping: return\<close> of a
  \<open>select\<close>; an external writer opens the pipe, writes a line, or closes it.
\<close>

datatype action =
  Call nat | LoopStart | LoopGo time | LoopStop | WriterOpen | WriterWrite string
  | WriterClose

definition setpc :: "nat \<Rightarrow> spc \<Rightarrow> 'g sys \<Rightarrow> 'g sys" where
  "setpc k pc s = s\<lparr> callers := (callers s)(k := pc) \<rparr>"

definition setOnce :: "once \<Rightarrow> 'g sys \<Rightarrow> 'g sys" where
  "setOnce on s = s\<lparr> pkg := (pkg s)\<lparr> stopOnce := on \<rparr> \<rparr>"

text \<open>
  One atomic step of invocation \<open>k\<close> of \<open>Shutdown\<close>; \<open>None\<close> when it is blocked (on
  the mutex of the \<open>Once\<close>, or in \<open>wg.Wait()\<close> while the counter is positive) or
  has finished.
\<close>

definition stepCall :: "nat \<Rightarrow> 'g sys \<Rightarrow> 'g sys option" where
  "stepCall k s =
     (case callers s k of
        NotCalled \<Rightarrow> Some (setpc k AtDo s)
      | AtDo \<Rightarrow> Some (setpc k (if onceDone (stopOnce (pkg s)) then AtWait else AtLock) s)
      | AtLock \<Rightarrow>
          (case onceM (stopOnce (pkg s)) of
             Some h \<Rightarrow> None
           | None \<Rightarrow> Some (setpc k InOnce (setOnce ((stopOnce (pkg s))\<lparr> onceM := Some k \<rparr>) s)))
      | InOnce \<Rightarrow> Some (setpc k (if onceDone (stopOnce (pkg s)) then AtUnlock else AtClose) s)
      | AtClose \<Rightarrow>
          if stopping (pkg s) then Some (setpc k Panicked s)
          else Some (setpc k AtRemove
                 (s\<lparr> pkg := (pkg s)\<lparr> stopping := True \<rparr>, trace := trace s @ [EvClose k] \<rparr>))
      | AtRemove \<Rightarrow>
          if fifoPipePath (pkg s) \<noteq> [] then
            Some (setpc k AtStoreDone
              (s\<lparr> files := files s - {fifoPipePath (pkg s)},
                 trace := trace s @ [EvRemove k (fifoPipePath (pkg s))] \<rparr>))
          else Some (setpc k AtStoreDone s)
      | AtStoreDone \<Rightarrow>
          Some (setpc k AtUnlock (setOnce ((stopOnce (pkg s))\<lparr> onceDone := True \<rparr>) s))
      | AtUnlock \<Rightarrow> Some (setpc k AtWait (setOnce ((stopOnce (pkg s))\<lparr> onceM := None \<rparr>) s))
      | AtWait \<Rightarrow> if wg (pkg s) = 0 then Some (setpc k Returned s) else None
      | Returned \<Rightarrow> None
      | Panicked \<Rightarrow> None)"

text \<open>The return of \<open>handle_cmds\<close>, with the deferred \<open>wg.Done()\<close>.\<close>

definition loopReturn :: "'g sys \<Rightarrow> 'g sys" where
  "loopReturn s = s\<lparr> loop := Exited, pkg := (pkg s)\<lparr> wg := wg (pkg s) - 1 \<rparr> \<rparr>"

text \<open>
  The loop goes on, at instant \<open>now\<close>; \<open>None\<close> when it cannot: at \<open>LTop\<close> with
  \<open>stopping\<close> closed only the branch of \<open>stopping\<close> is ready; at \<open>LOpening\<close> the open
  blocks until there is a writer; at \<open>LRead\<close> \<open>Scan\<close> blocks while no line is
  waiting and a writer holds the pipe open. At \<open>LOpen\<close> the open fails at once when
  there is no pipe at the path. At \<open>LRead\<close> a line is handed to \<open>dispatch\<close> (a panic
  there ends the process), and the end of the stream closes the file.
\<close>

definition stepLoop :: "time \<Rightarrow> 'g sys \<Rightarrow> 'g sys option" where
  "stepLoop now s =
     (case loop s of
        NotStarted \<Rightarrow> None
      | LTop \<Rightarrow> if stopping (pkg s) then None else Some (s\<lparr> loop := LOpen \<rparr>)
      | LOpen \<Rightarrow>
          if fifoPipePath (pkg s) \<in> files s then Some (s\<lparr> loop := LOpening \<rparr>)
          else Some (s\<lparr> loop := LOpenErr \<rparr>)
      | LOpening \<Rightarrow> if 0 < writers s then Some (s\<lparr> loop := LRead \<rparr>) else None
      | LOpenErr \<Rightarrow> Some (s\<lparr> loop := LTop \<rparr>)
      | LRead \<Rightarrow>
          (case pipe s of
             cmd # rest \<Rightarrow>
               (case dispatch cmd now (pkg s) of
                  None \<Rightarrow> None
                | Some p \<Rightarrow> Some (s\<lparr> pkg := p, pipe := rest \<rparr>))
           | [] \<Rightarrow> if writers s = 0 then Some (s\<lparr> loop := LClosing \<rparr>) else None)
      | LClosing \<Rightarrow> Some (s\<lparr> loop := LTop \<rparr>)
      | Exited \<Rightarrow> None)"

text \<open>
  A writer can open the pipe only through its path, and its open completes only with
  a reader at the other end.
\<close>

fun exec :: "action \<Rightarrow> 'g sys \<Rightarrow> 'g sys option" where
  "exec (Call k) s = stepCall k s"
| "exec LoopStart s =
     (if loop s = NotStarted
      then Some (s\<lparr> loop := LTop, pkg := (pkg s)\<lparr> wg := wg (pkg s) + 1 \<rparr> \<rparr>)
      else None)"
| "exec (LoopGo now) s = stepLoop now s"
| "exec LoopStop s =
     (if stopping (pkg s) \<and> loop s \<in> {LTop, LOpenErr, LClosing}
      then Some (loopReturn s) else None)"
| "exec WriterOpen s =
     (if fifoPipePath (pkg s) \<in> files s \<and> loop s \<in> {LOpening, LRead}
      then Some (s\<lparr> writers := Suc (writers s) \<rparr>) else None)"
| "exec (WriterWrite l) s =
     (if 0 < writers s then Some (s\<lparr> pipe := pipe s @ [l] \<rparr>) else None)"
| "exec WriterClose s =
     (if 0 < writers s then Some (s\<lparr> writers := writers s - 1 \<rparr>) else None)"

fun run :: "action list \<Rightarrow> 'g sys \<Rightarrow> 'g sys option" where
  "run [] s = Some s"
| "run (a # as) s = (case exec a s of None \<Rightarrow> None | Some s1 \<Rightarrow> run as s1)"

text \<open>
  The process after \<open>InitWithBase\<close> has stored \<open>path\<close> in \<open>fifoPipePath\<close>: nobody
  has called \<open>Shutdown\<close>, the \<open>Once\<close> is fresh, \<open>stopping\<close> is open, the dispatch
  loop has not been started, no writer holds the pipe.
\<close>

definition initSys :: "string \<Rightarrow> string set \<Rightarrow> 'g \<Rightarrow> world \<Rightarrow> 'g sys" where
  "initSys path fs g w =
     \<lparr> pkg = (initPolybar g w)\<lparr> fifoPipePath := path \<rparr>, files = fs, writers = 0,
       pipe = [], callers = (\<lambda>k. NotCalled), loop = NotStarted, trace = [] \<rparr>"

text \<open>The dispatch loop is running: started and not yet returned.\<close>

definition loopRunning :: "'g sys \<Rightarrow> bool" where
  "loopRunning s = (loop s \<noteq> NotStarted \<and> loop s \<noteq> Exited)"

text \<open>
  What the trace of a finished \<open>Once\<close> body is when invocation \<open>k\<close> ran it: one
  close, and one removal when there is a path.
\<close>

definition bodyTrace :: "nat \<Rightarrow> string \<Rightarrow> event list" where
  "bodyTrace k path = (if path = [] then [EvClose k] else [EvClose k, EvRemove k path])"

text \<open>The program points at which an invocation holds the mutex of \<open>stopOnce\<close>.\<close>

definition inOnce :: "spc \<Rightarrow> bool" where
  "inOnce pc = (pc \<in> {InOnce, AtClose, AtRemove, AtStoreDone, AtUnlock})"

text \<open>
  The invariant of the runs from \<open>initSys\<close>: the holder of the mutex is the one
  invocation inside the \<open>Once\<close>; \<open>done\<close> is set exactly from the store at
  \<open>AtStoreDone\<close> on; \<open>stopping\<close>, the trace and the pipe file follow the progress of
  the one invocation that runs the body; the counter of \<open>wg\<close> is 1 exactly while the
  dispatch loop runs.
\<close>

definition shutdownInv :: "string \<Rightarrow> 'g sys \<Rightarrow> bool" where
  "shutdownInv path s =
     (fifoPipePath (pkg s) = path \<and>
      (\<forall>k. inOnce (callers s k) = (onceM (stopOnce (pkg s)) = Some k)) \<and>
      (\<forall>k. callers s k \<noteq> Panicked) \<and>
      wg (pkg s) = (if loopRunning s then 1 else 0) \<and>
      (\<forall>k. callers s k \<in> {AtUnlock, AtWait, Returned} \<longrightarrow> onceDone (stopOnce (pkg s))) \<and>
      (\<forall>k. callers s k \<in> {AtClose, AtRemove, AtStoreDone} \<longrightarrow>
           \<not> onceDone (stopOnce (pkg s))) \<and>
      (\<forall>k. callers s k = AtRemove \<longrightarrow> stopping (pkg s) \<and> trace s = [EvClose k]) \<and>
      (\<forall>k. callers s k = AtStoreDone \<longrightarrow>
           stopping (pkg s) \<and> trace s = bodyTrace k path \<and> (path \<noteq> [] \<longrightarrow> path \<notin> files s)) \<and>
      (onceDone (stopOnce (pkg s)) \<longrightarrow>
           stopping (pkg s) \<and> (\<exists>k. trace s = bodyTrace k path) \<and>
           (path \<noteq> [] \<longrightarrow> path \<notin> files s)) \<and>
      (\<not> onceDone (stopOnce (pkg s)) \<and> (\<forall>k. callers s k \<notin> {AtRemove, AtStoreDone}) \<longrightarrow>
           \<not> stopping (pkg s) \<and> trace s = []))"

text \<open>
  The dispatch loop is idle inside \<open>os.OpenFile\<close> (no writer holds the pipe) and the
  path of the pipe is gone, so that no writer can open it any more; the counter of
  \<open>wg\<close> is 1 and no invocation of \<open>Shutdown\<close> has returned.
\<close>

definition idleBlocked :: "'g sys \<Rightarrow> bool" where
  "idleBlocked s =
     (loop s = LOpening \<and> writers s = 0 \<and> fifoPipePath (pkg s) \<notin> files s \<and>
      wg (pkg s) = 1 \<and> (\<forall>k. callers s k \<noteq> Returned))"

section \<open>Properties\<close>

subsection \<open>Evaluation and arithmetic of durations\<close>

lemmas store_defs =
  emptyWorld_def makeChan_def allocTimer_def stopRTimer_def AfterFunc_def StartTimer_def
  StopTimer_def runHandler_def fire_def

lemmas manager_defs =
  Subscribe_def trySend_def tick_def Stop_def Reset_def Start_def
  Inc_def Dec_def Snapshot_def Done_def durationOf_def isClosed_def

lemma sint_add_5s:
  assumes "0 \<le> sint d" and "sint d \<le> maxDuration - 5000000000"
  shows "sint (d + 5 * Second) = sint d + 5000000000"
proof -
  have "sint (d + 5 * Second) = signed_take_bit 63 (sint d + 5000000000)"
    by (simp add: sint_word_ariths Second_def)
  also have "\<dots> = sint d + 5000000000"
    using assms by (intro signed_take_bit_int_eq_self) (simp_all add: maxDuration_def)
  finally show ?thesis .
qed

lemma Dec_after_Inc_value:
  fixes d :: duration
  assumes "0 \<le>s d" and "d \<le>s word_of_int maxDuration - 5 * Second"
  shows "(if 5 * Second <s d + 5 * Second then d + 5 * Second - 5 * Second else 0) = d"
proof (cases "d = 0")
  case True
  then show ?thesis by (simp add: word_sless_alt)
next
  case False
  have "sint (word_of_int maxDuration - 5 * Second :: 64 word) = maxDuration - 5000000000"
    by (simp add: maxDuration_def Second_def)
  with assms have b: "0 \<le> sint d" "sint d \<le> maxDuration - 5000000000"
    by (simp_all add: word_sle_eq)
  from False have "sint d \<noteq> 0" by (simp add: signed_eq_0_iff)
  with b sint_add_5s [OF b] have "5 * Second <s d + 5 * Second"
    by (simp add: word_sless_alt Second_def)
  then show ?thesis by simp
qed

subsection \<open>The store\<close>

lemma wf_allocated:
  assumes "wf w"
  shows "timerDatas w x = Some td \<Longrightarrow> x < nextAddr w"
    and "managers w x = Some m \<Longrightarrow> x < nextAddr w"
    and "chans w x = Some c \<Longrightarrow> x < nextAddr w"
    and "rtimers w x = Some rt \<Longrightarrow> x < nextAddr w"
  using assms by (auto simp: wf_def not_le [symmetric])

lemma Reset_unfold:
  assumes "managers w t = Some m" and "tmTimer m = Some a" and "timerDatas w a = Some td"
  shows "Reset t w =
     Some (w\<lparr> timerDatas := (timerDatas w)(nextAddr w \<mapsto> NewTimer (Duration td)),
              chans := (chans w)(Suc (nextAddr w) \<mapsto> \<lparr> closed = False, buf = [], cap = 0 \<rparr>),
              nextAddr := Suc (Suc (nextAddr w)),
              managers := (managers w)
                (t \<mapsto> m\<lparr> tmTimer := Some (nextAddr w), lastValue := Duration td,
                         doneCh := Suc (nextAddr w) \<rparr>) \<rparr>)"
  using assms by (simp add: Reset_def allocTimer_def makeChan_def Let_def)

lemma durationOf_Inc:
  assumes "durationOf t w = Some d"
  shows "\<exists>w1. Inc t w = Some w1 \<and> durationOf t w1 = Some (d + 5 * Second)"
  using assms by (auto simp: durationOf_def Inc_def split: option.splits)

lemma durationOf_Dec:
  assumes "durationOf t w = Some d"
  shows "\<exists>w1. Dec t w = Some w1 \<and>
           durationOf t w1 = Some (if 5 * Second <s d then d - 5 * Second else 0)"
  using assms by (auto simp: durationOf_def Dec_def split: option.splits)

text \<open>
  The store right after \<open>NewTimerManager(d)\<close> in an empty process: the primitive at
  address 1, the channels \<open>updates\<close>, \<open>stopCh\<close>, \<open>doneCh\<close> at 2, 3, 4, the manager at 5.
\<close>

lemma NewTimerManager_emptyWorld:
  "NewTimerManager d emptyWorld =
     (5, \<lparr> timerDatas = [1 \<mapsto> NewTimer d], rtimers = Map.empty,
           chans = [2 \<mapsto> \<lparr> closed = False, buf = [], cap = 0 \<rparr>,
                    3 \<mapsto> \<lparr> closed = False, buf = [], cap = 0 \<rparr>,
                    4 \<mapsto> \<lparr> closed = False, buf = [], cap = 0 \<rparr>],
           managers = [5 \<mapsto> \<lparr> subs = [], tmTimer = Some 1, lastValue = 0,
                               updates = 2, stopCh = 3, doneCh = 4 \<rparr>],
           nextAddr = 6 \<rparr>)"
  by (simp add: NewTimerManager_def allocTimer_def makeChan_def emptyWorld_def
      eval_nat_numeral)

subsection \<open>The countdown primitive: queries\<close>

text \<open>
  C1 (the code at the input where it departs from the claim): a primitive made by
  \<open>NewTimer\<close> with a duration of 200 ms and never started has \<open>StartedAt\<close> zero,
  \<open>Elapsed\<close> returns 0, and \<open>Remaining\<close> returns the whole 200 ms, not 0.
\<close>

theorem C1_never_started_Remaining_is_Duration:
  "IsZero (StartedAt (NewTimer (200 * Millisecond))) \<and>
   Elapsed (NewTimer (200 * Millisecond)) now = 0 \<and>
   Remaining (NewTimer (200 * Millisecond)) now = 200 * Millisecond \<and>
   Remaining (NewTimer (200 * Millisecond)) now \<noteq> 0"
  by (simp add: Remaining_def Elapsed_def NewTimer_def IsZero_def Millisecond_def
      word_sless_alt)

text \<open>
  C4, as stated, fails for a negative duration: \<open>NewTimer(-1)\<close> started at instant 100
  fires at once; afterwards \<open>IsComplete\<close> holds, and \<open>Remaining\<close> returns 0 and not
  the configured duration of -1 ns.
\<close>

theorem C4_negative_duration_counterexample:
  "Option.bind
     (Option.bind (StartTimer 1 100 (snd (allocTimer (NewTimer (- 1)) emptyWorld)))
        (fire 2 100))
     (\<lambda>w. timerDatas w 1) =
     Some \<lparr> Timer = Some 2, Duration = - 1, BreakDuration = Minute, IsComplete = True,
            StartedAt = 100, CompletedAt = 100, Handler = None \<rparr> \<and>
   Remaining \<lparr> Timer = Some 2, Duration = - 1, BreakDuration = Minute, IsComplete = True,
               StartedAt = 100, CompletedAt = 100, Handler = None \<rparr> 100 = 0 \<and>
   Remaining \<lparr> Timer = Some 2, Duration = - 1, BreakDuration = Minute, IsComplete = True,
               StartedAt = 100, CompletedAt = 100, Handler = None \<rparr> 100 \<noteq>
   Duration \<lparr> Timer = Some 2, Duration = - 1, BreakDuration = Minute, IsComplete = True,
              StartedAt = 100, CompletedAt = 100, Handler = None \<rparr>"
  by (simp add: store_defs NewTimer_def Remaining_def Elapsed_def word_sless_alt)

text \<open>
  C4 (amended): for every countdown primitive whose countdown has fired (\<open>IsComplete\<close>
  is true), \<open>Elapsed\<close> returns 0 at every instant, and \<open>Remaining\<close> returns the full
  configured duration when that duration is not negative, and 0 when it is negative.
\<close>

theorem C4_complete_Elapsed_Remaining:
  assumes "IsComplete t"
  shows "Elapsed t now = 0 \<and>
         (0 \<le>s Duration t \<longrightarrow> Remaining t now = Duration t) \<and>
         (Duration t <s 0 \<longrightarrow> Remaining t now = 0)"
  using assms by (auto simp: Remaining_def Elapsed_def word_sless_alt word_sle_eq)

theorem C4_complete_Elapsed_Remaining_witness:
  "Option.bind
     (Option.bind (StartTimer 1 100 (snd (allocTimer (NewTimer (200 * Millisecond)) emptyWorld)))
        (fire 2 200000100))
     (\<lambda>w. timerDatas w 1) =
     Some \<lparr> Timer = Some 2, Duration = 200 * Millisecond, BreakDuration = Minute,
            IsComplete = True, StartedAt = 100, CompletedAt = 200000100, Handler = None \<rparr> \<and>
   Elapsed \<lparr> Timer = Some 2, Duration = 200 * Millisecond, BreakDuration = Minute,
             IsComplete = True, StartedAt = 100, CompletedAt = 200000100, Handler = None \<rparr>
     250000000 = 0 \<and>
   Remaining \<lparr> Timer = Some 2, Duration = 200 * Millisecond, BreakDuration = Minute,
               IsComplete = True, StartedAt = 100, CompletedAt = 200000100, Handler = None \<rparr>
     250000000 = 200 * Millisecond"
  using C4_complete_Elapsed_Remaining
    [of "\<lparr> Timer = Some 2, Duration = 200 * Millisecond, BreakDuration = Minute,
            IsComplete = True, StartedAt = 100, CompletedAt = 200000100, Handler = None \<rparr>"
        250000000]
  by (simp add: store_defs NewTimer_def Millisecond_def word_sle_eq)

subsection \<open>The timer coordinator\<close>

text \<open>
  C5, as stated, fails in two places. A coordinator made with a negative duration
  (\<open>NewTimerManager(-1)\<close>) has \<open>Inc\<close> then \<open>Dec\<close> end at 0 and not at -1 ns, since
  \<open>Dec\<close> clamps at 5 s; and at the largest duration \<open>Inc\<close> wraps around to a negative
  value, which \<open>Dec\<close> then sets to 0.
\<close>

theorem C5_inc_dec_counterexample:
  "durationOf 5 (snd (NewTimerManager (- 1) emptyWorld)) = Some (- 1) \<and>
   Option.bind (Option.bind (Inc 5 (snd (NewTimerManager (- 1) emptyWorld))) (Dec 5))
     (durationOf 5) = Some 0 \<and>
   durationOf 5 (snd (NewTimerManager 9223372036854775807 emptyWorld)) =
     Some 9223372036854775807 \<and>
   Option.bind
     (Option.bind (Inc 5 (snd (NewTimerManager 9223372036854775807 emptyWorld))) (Dec 5))
     (durationOf 5) = Some 0"
  by (simp add: NewTimerManager_emptyWorld durationOf_def Inc_def Dec_def NewTimer_def
      Second_def word_sless_alt)

text \<open>
  C5 (amended): for every duration \<open>d\<close> with \<open>0 \<le> d \<le> MaxInt64 - 5 s\<close> held by the
  coordinator's primitive, \<open>Inc\<close> and then \<open>Dec\<close> leave the duration exactly \<open>d\<close>;
  and for every duration strictly less than the 5-second step (a negative one
  included), \<open>Dec\<close> sets the duration to exactly zero. Neither panics.
\<close>

theorem C5_inc_dec:
  assumes "durationOf t w = Some d"
  shows "(0 \<le>s d \<and> d \<le>s word_of_int maxDuration - 5 * Second \<longrightarrow>
            Option.bind (Option.bind (Inc t w) (Dec t)) (durationOf t) = Some d) \<and>
         (d <s 5 * Second \<longrightarrow> Option.bind (Dec t w) (durationOf t) = Some 0)"
proof (intro conjI impI)
  assume b: "0 \<le>s d \<and> d \<le>s word_of_int maxDuration - 5 * Second"
  from durationOf_Inc [OF assms] obtain w1
    where w1: "Inc t w = Some w1" "durationOf t w1 = Some (d + 5 * Second)" by blast
  from durationOf_Dec [OF w1(2)] obtain w2
    where w2: "Dec t w1 = Some w2"
      "durationOf t w2 =
         Some (if 5 * Second <s d + 5 * Second then d + 5 * Second - 5 * Second else 0)"
    by blast
  from b have "(if 5 * Second <s d + 5 * Second then d + 5 * Second - 5 * Second else 0) = d"
    by (intro Dec_after_Inc_value) simp_all
  with w1 w2 show "Option.bind (Option.bind (Inc t w) (Dec t)) (durationOf t) = Some d"
    by simp
next
  assume "d <s 5 * Second"
  then have "\<not> 5 * Second <s d" by (simp add: word_sless_alt)
  with durationOf_Dec [OF assms] show "Option.bind (Dec t w) (durationOf t) = Some 0"
    by auto
qed

theorem C5_inc_dec_witness:
  "Option.bind
     (Option.bind (Inc 5 (snd (NewTimerManager (100 * Millisecond) emptyWorld))) (Dec 5))
     (durationOf 5) = Some (100 * Millisecond) \<and>
   Option.bind (Dec 5 (snd (NewTimerManager (100 * Millisecond) emptyWorld))) (durationOf 5) =
     Some 0"
proof -
  have d: "durationOf 5 (snd (NewTimerManager (100 * Millisecond) emptyWorld)) =
             Some (100 * Millisecond)"
    by (simp add: NewTimerManager_emptyWorld durationOf_def NewTimer_def)
  have "(0::duration) \<le>s 100 * Millisecond"
    and "100 * Millisecond \<le>s word_of_int maxDuration - 5 * Second"
    and "100 * Millisecond <s 5 * Second"
    by (simp_all add: word_sle_eq word_sless_alt Millisecond_def Second_def maxDuration_def)
  with C5_inc_dec [OF d] show ?thesis by simp
qed

text \<open>
  C2 (the code at the input where it departs from the claim): the sequence of the
  repository's own \<open>TestTimerManager_IncDecWorkflow\<close>. A coordinator is constructed
  with 100 ms; after \<open>Inc\<close>, \<open>Inc\<close>, \<open>Dec\<close> and \<open>Reset\<close> the duration of its
  primitive is 100 ms + 5 s, the adjusted duration, and not the 100 ms it was constructed
  with. The other half of the claim holds there: the channel that \<open>Done\<close> returns
  after \<open>Reset\<close> is a new one and is not closed.
\<close>

theorem C2_Reset_keeps_adjusted_duration:
  "durationOf 5 (snd (NewTimerManager (100 * Millisecond) emptyWorld)) =
     Some (100 * Millisecond) \<and>
   Option.bind
     (Option.bind
        (Option.bind
           (Option.bind (Inc 5 (snd (NewTimerManager (100 * Millisecond) emptyWorld))) (Inc 5))
           (Dec 5))
        (Reset 5))
     (durationOf 5) = Some (100 * Millisecond + 5 * Second) \<and>
   100 * Millisecond + 5 * Second \<noteq> 100 * Millisecond \<and>
   Done 5 (snd (NewTimerManager (100 * Millisecond) emptyWorld)) = Some 4 \<and>
   Option.bind
     (Option.bind
        (Option.bind
           (Option.bind (Inc 5 (snd (NewTimerManager (100 * Millisecond) emptyWorld))) (Inc 5))
           (Dec 5))
        (Reset 5))
     (\<lambda>w. Option.bind (Done 5 w) (\<lambda>c. Some (c, isClosed c w))) = Some (7, False)"
  by (simp add: NewTimerManager_emptyWorld manager_defs allocTimer_def makeChan_def
      NewTimer_def Second_def Millisecond_def word_sless_alt)

text \<open>
  C3 (the code at the input where it departs from the claim): right after
  \<open>NewTimerManager(10 * time.Second)\<close>, before any tick of the broadcaster and with
  the timer never started, \<open>Snapshot\<close> returns 0, the zero value of \<open>lastValue\<close>,
  and not the 10 s the coordinator was constructed with. From the first tick on (here at
  200 ms) \<open>Snapshot\<close> is the remaining time of that tick, 10 s for the timer that
  has not started; and \<open>Reset\<close>, which also installs a fresh primitive, does set
  \<open>lastValue\<close> to the duration.
\<close>

theorem C3_Snapshot_after_construction:
  "Snapshot 5 (snd (NewTimerManager (10 * Second) emptyWorld)) = Some 0 \<and>
   durationOf 5 (snd (NewTimerManager (10 * Second) emptyWorld)) = Some (10 * Second) \<and>
   10 * Second \<noteq> (0 :: duration) \<and>
   Option.bind (tick 5 (200 * 1000000) (snd (NewTimerManager (10 * Second) emptyWorld)))
     (Snapshot 5) = Some (10 * Second) \<and>
   Option.bind (Reset 5 (snd (NewTimerManager (10 * Second) emptyWorld))) (Snapshot 5) =
     Some (10 * Second)"
  by (simp add: NewTimerManager_emptyWorld manager_defs allocTimer_def makeChan_def
      NewTimer_def Remaining_def Elapsed_def IsZero_def Second_def word_sless_alt)


text \<open>
  C9: in a well-formed store, let the coordinator \<open>t\<close> hold the primitive \<open>a\<close> whose
  handler is the one \<open>Start\<close> installs, and let \<open>r\<close> be a runtime timer armed for
  \<open>a\<close> and still pending. Then \<open>Reset\<close> succeeds and changes, of everything that
  was allocated, only the fields \<open>Timer\<close>, \<open>lastValue\<close> and \<open>doneCh\<close> of the
  coordinator \<open>t\<close>: every runtime timer, every other \<open>TimerData\<close>, channel and
  manager, and the fields \<open>subs\<close>, \<open>updates\<close> and \<open>stopCh\<close> are as before; the
  new primitive and the new channel are at addresses that were free. The timer \<open>r\<close> is
  still pending after \<open>Reset\<close>, and when it fires it completes the replaced primitive
  and closes the channel \<open>Reset\<close> has just created, while the channel that \<open>Done\<close>
  returned before \<open>Reset\<close> is left as it was.
\<close>

theorem C9_Reset_frame_and_stale_fire:
  assumes wf: "wf w"
    and m: "managers w t = Some m" and a: "tmTimer m = Some a"
    and td: "timerDatas w a = Some td" and h: "Handler td = Some (CloseDone t)"
    and rt: "rtimers w r = Some rt" and p: "pending rt" and ow: "owner rt = a"
    and c0: "chans w (doneCh m) = Some c0"
  shows "\<exists>w2 m2 w3.
     Reset t w = Some w2 \<and> managers w2 t = Some m2 \<and>
     rtimers w2 = rtimers w \<and>
     (\<forall>x. x < nextAddr w \<longrightarrow> timerDatas w2 x = timerDatas w x \<and> chans w2 x = chans w x) \<and>
     (\<forall>t'. t' \<noteq> t \<longrightarrow> managers w2 t' = managers w t') \<and>
     subs m2 = subs m \<and> updates m2 = updates m \<and> stopCh m2 = stopCh m \<and>
     tmTimer m2 = Some (nextAddr w) \<and> timerDatas w (nextAddr w) = None \<and>
     timerDatas w2 (nextAddr w) = Some (NewTimer (Duration td)) \<and>
     lastValue m2 = Duration td \<and>
     doneCh m2 = Suc (nextAddr w) \<and> doneCh m2 \<noteq> doneCh m \<and>
     chans w (doneCh m2) = None \<and>
     chans w2 (doneCh m2) = Some \<lparr> closed = False, buf = [], cap = 0 \<rparr> \<and>
     rtimers w2 r = Some rt \<and>
     fire r later w2 = Some w3 \<and>
     isClosed (doneCh m2) w3 \<and> chans w3 (doneCh m) = chans w (doneCh m) \<and>
     timerDatas w3 a = Some (td\<lparr> IsComplete := True, CompletedAt := later \<rparr>)"
proof -
  let ?n = "nextAddr w"
  from wf have fresh: "timerDatas w ?n = None" "chans w (Suc ?n) = None"
    by (simp_all add: wf_def)
  from wf td have an: "a < ?n" by (rule wf_allocated)
  have dn: "Suc ?n \<noteq> doneCh m"
    using wf_allocated(3) [OF wf c0] by simp
  show ?thesis
    using m a td h rt p ow fresh an dn c0
    by (simp add: Reset_unfold [OF m a td] fire_def runHandler_def isClosed_def)
qed

text \<open>
  The witness is the store of a coordinator constructed with 10 s and started at instant
  100: \<open>Start\<close> arms the runtime timer 6 for the primitive 1. After \<open>Reset\<close> the
  coordinator holds the primitive 7 and the channel 8; the stale timer 6 fires at instant
  \<open>10 s + 100\<close> and closes channel 8, not channel 4.
\<close>

theorem C9_Reset_frame_and_stale_fire_witness:
  "Start 5 100 (snd (NewTimerManager (10 * Second) emptyWorld)) =
     Some \<lparr> timerDatas =
              [1 \<mapsto> \<lparr> Timer = Some 6, Duration = 10 * Second, BreakDuration = Minute,
                      IsComplete = False, StartedAt = 100, CompletedAt = 0,
                      Handler = Some (CloseDone 5) \<rparr>],
            rtimers = [6 \<mapsto> \<lparr> pending = True, owner = 1, delay = 10 * Second \<rparr>],
            chans = [2 \<mapsto> \<lparr> closed = False, buf = [], cap = 0 \<rparr>,
                     3 \<mapsto> \<lparr> closed = False, buf = [], cap = 0 \<rparr>,
                     4 \<mapsto> \<lparr> closed = False, buf = [], cap = 0 \<rparr>],
            managers = [5 \<mapsto> \<lparr> subs = [], tmTimer = Some 1, lastValue = 0,
                                updates = 2, stopCh = 3, doneCh = 4 \<rparr>],
            nextAddr = 7 \<rparr> \<and>
   (\<exists>w2 w3.
      Option.bind (Start 5 100 (snd (NewTimerManager (10 * Second) emptyWorld))) (Reset 5) =
        Some w2 \<and>
      Done 5 w2 = Some 8 \<and> \<not> isClosed 8 w2 \<and>
      rtimers w2 6 = Some \<lparr> pending = True, owner = 1, delay = 10 * Second \<rparr> \<and>
      fire 6 10000000100 w2 = Some w3 \<and>
      isClosed 8 w3 \<and> \<not> isClosed 4 w3)"
proof -
  let ?td = "\<lparr> Timer = Some 6, Duration = 10 * Second, BreakDuration = Minute,
               IsComplete = False, StartedAt = 100, CompletedAt = 0,
               Handler = Some (CloseDone 5) \<rparr>"
  let ?rt = "\<lparr> pending = True, owner = 1, delay = 10 * Second \<rparr>"
  let ?c = "\<lparr> closed = False, buf = [], cap = 0 \<rparr>"
  let ?m = "\<lparr> subs = [], tmTimer = Some 1, lastValue = 0, updates = 2, stopCh = 3,
              doneCh = 4 \<rparr>"
  let ?w = "\<lparr> timerDatas = [1 \<mapsto> ?td], rtimers = [6 \<mapsto> ?rt],
              chans = [2 \<mapsto> ?c, 3 \<mapsto> ?c, 4 \<mapsto> ?c], managers = [5 \<mapsto> ?m],
              nextAddr = 7 \<rparr>"
  have started: "Start 5 100 (snd (NewTimerManager (10 * Second) emptyWorld)) = Some ?w"
    by (simp add: NewTimerManager_emptyWorld Start_def StartTimer_def AfterFunc_def
        NewTimer_def fun_upd_twist)
  have wfw: "wf ?w" by (simp add: wf_def)
  from C9_Reset_frame_and_stale_fire
         [of ?w 5 ?m 1 ?td 6 ?rt ?c 10000000100, OF wfw]
  obtain w2 m2 w3 where
    "Reset 5 ?w = Some w2" "managers w2 5 = Some m2" "doneCh m2 = Suc (nextAddr ?w)"
    "chans w2 (doneCh m2) = Some ?c" "rtimers w2 6 = Some ?rt"
    "fire 6 10000000100 w2 = Some w3" "isClosed (doneCh m2) w3" "chans w3 4 = chans ?w 4"
    by auto
  then have "Reset 5 ?w = Some w2 \<and> Done 5 w2 = Some 8 \<and> \<not> isClosed 8 w2 \<and>
      rtimers w2 6 = Some ?rt \<and> fire 6 10000000100 w2 = Some w3 \<and>
      isClosed 8 w3 \<and> \<not> isClosed 4 w3"
    by (simp add: Done_def isClosed_def)
  then show ?thesis
    unfolding started by auto
qed

subsection \<open>The null-safe wrappers and the command dispatch\<close>

lemma readLines_snoc:
  "readLines (ls @ [(cmd, now)]) p = Option.bind (readLines ls p) (dispatch cmd now)"
proof (induction ls arbitrary: p)
  case Nil
  show ?case by (simp split: option.splits)
next
  case (Cons l ls)
  obtain c n where l: "l = (c, n)" by (cases l)
  show ?case
  proof (cases "dispatch c n p")
    case None
    then show ?thesis by (simp add: l)
  next
    case (Some p1)
    with Cons.IH [of p1] show ?thesis by (simp add: l)
  qed
qed

text \<open>
  C10: when no manager has been set (\<open>getTimerManager\<close> returns nil), none of the
  wrappers panics (each returns \<open>Some\<close>): \<open>TimerStart\<close>, \<open>TimerStop\<close>, \<open>TimerInc\<close>
  and \<open>TimerDec\<close> leave the whole state as it is, \<open>Snapshot\<close> returns 0 and
  \<open>Subscribe\<close> returns nil.
\<close>

theorem C10_wrappers_without_manager:
  assumes "getTimerManager p = None"
  shows "TimerStart now p = Some p \<and> TimerStop p = Some p \<and> TimerInc p = Some p \<and>
         TimerDec p = Some p \<and> Snapshot_pb p = Some 0 \<and> Subscribe_pb p = Some (None, p)"
  using assms
  by (simp add: TimerStart_def TimerStop_def TimerInc_def TimerDec_def Snapshot_pb_def
      Subscribe_pb_def)

theorem C10_wrappers_without_manager_witness:
  "getTimerManager (SetTimerManager None (initPolybar False emptyWorld)) = None \<and>
   TimerStart 100 (SetTimerManager None (initPolybar False emptyWorld)) =
     Some (SetTimerManager None (initPolybar False emptyWorld)) \<and>
   TimerStop (SetTimerManager None (initPolybar False emptyWorld)) =
     Some (SetTimerManager None (initPolybar False emptyWorld)) \<and>
   TimerInc (SetTimerManager None (initPolybar False emptyWorld)) =
     Some (SetTimerManager None (initPolybar False emptyWorld)) \<and>
   TimerDec (SetTimerManager None (initPolybar False emptyWorld)) =
     Some (SetTimerManager None (initPolybar False emptyWorld)) \<and>
   Snapshot_pb (SetTimerManager None (initPolybar False emptyWorld)) = Some 0 \<and>
   Subscribe_pb (SetTimerManager None (initPolybar False emptyWorld)) =
     Some (None, SetTimerManager None (initPolybar False emptyWorld))"
proof -
  have nil: "getTimerManager (SetTimerManager None (initPolybar False emptyWorld)) = None"
    by (simp add: getTimerManager_def SetTimerManager_def)
  from C10_wrappers_without_manager [OF nil, of 100] nil show ?thesis by simp
qed

text \<open>
  C8: for every line \<open>cmd\<close> the dispatch loop reads, at whatever instant, the switch
  maps the exact tokens: \<open>start\<close> runs the coordinator's \<open>Start\<close> on the injected
  manager, \<open>stop\<close> its \<open>Stop\<close>, \<open>inc\<close> its \<open>Inc\<close>, \<open>dec\<close> its \<open>Dec\<close> (each
  through the null-safe wrapper, so nothing happens when no manager is set); \<open>gui\<close>
  runs the registered toggle callback when there is one and does nothing otherwise,
  leaving the coordinator alone; any other text returns without error and leaves the
  whole state, the coordinator included, unchanged. The loop hands every line it reads
  to this switch, in order.
\<close>

theorem C8_dispatch_table:
  "dispatch ''start'' now p =
     (case timerManager p of
        None \<Rightarrow> Some p
      | Some tm \<Rightarrow> map_option (\<lambda>w. p\<lparr> store := w \<rparr>) (Start tm now (store p))) \<and>
   dispatch ''stop'' now p =
     (case timerManager p of
        None \<Rightarrow> Some p
      | Some tm \<Rightarrow> map_option (\<lambda>w. p\<lparr> store := w \<rparr>) (Stop tm (store p))) \<and>
   dispatch ''inc'' now p =
     (case timerManager p of
        None \<Rightarrow> Some p
      | Some tm \<Rightarrow> map_option (\<lambda>w. p\<lparr> store := w \<rparr>) (Inc tm (store p))) \<and>
   dispatch ''dec'' now p =
     (case timerManager p of
        None \<Rightarrow> Some p
      | Some tm \<Rightarrow> map_option (\<lambda>w. p\<lparr> store := w \<rparr>) (Dec tm (store p))) \<and>
   dispatch ''gui'' now p =
     (case guiToggleCallback p of
        None \<Rightarrow> Some p
      | Some cb \<Rightarrow> Some (p\<lparr> gui := cb (gui p) \<rparr>)) \<and>
   (cmd \<notin> {''start'', ''stop'', ''inc'', ''dec'', ''gui''} \<longrightarrow> dispatch cmd now p = Some p) \<and>
   readLines (ls @ [(cmd, now)]) p = Option.bind (readLines ls p) (dispatch cmd now)"
  by (simp add: dispatch_def TimerStart_def TimerStop_def TimerInc_def TimerDec_def
      getTimerManager_def readLines_snoc map_option_case split: option.splits)

text \<open>
  The witness: a process whose manager (address 5) was constructed with 100 ms and
  whose toggle callback flips a flag. The unknown line of the repository's test leaves
  the state as it is; \<open>gui\<close> flips the flag; \<open>inc\<close>, \<open>inc\<close>, \<open>dec\<close> leave a
  duration of 100 ms + 5 s.
\<close>

theorem C8_dispatch_table_witness:
  "''unknown_command'' \<notin> {''start'', ''stop'', ''inc'', ''dec'', ''gui''} \<and>
   dispatch ''unknown_command'' 7
     (AddHandler (Some Not)
        (SetTimerManager (Some 5)
           (initPolybar False (snd (NewTimerManager (100 * Millisecond) emptyWorld))))) =
   Some (AddHandler (Some Not)
        (SetTimerManager (Some 5)
           (initPolybar False (snd (NewTimerManager (100 * Millisecond) emptyWorld))))) \<and>
   map_option gui
     (dispatch ''gui'' 7
        (AddHandler (Some Not)
           (SetTimerManager (Some 5)
              (initPolybar False (snd (NewTimerManager (100 * Millisecond) emptyWorld)))))) =
   Some True \<and>
   Option.bind
     (readLines [(''inc'', 1), (''inc'', 2), (''dec'', 3)]
        (AddHandler (Some Not)
           (SetTimerManager (Some 5)
              (initPolybar False (snd (NewTimerManager (100 * Millisecond) emptyWorld))))))
     (\<lambda>p. durationOf 5 (store p)) = Some (100 * Millisecond + 5 * Second)"
proof -
  let ?p = "AddHandler (Some Not)
        (SetTimerManager (Some 5)
           (initPolybar False (snd (NewTimerManager (100 * Millisecond) emptyWorld))))"
  have u: "''unknown_command'' \<notin> {''start'', ''stop'', ''inc'', ''dec'', ''gui''}"
    by simp
  note tab = C8_dispatch_table [of 7 ?p "''unknown_command''" "[]"]
  from tab u have 1: "dispatch ''unknown_command'' 7 ?p = Some ?p" by blast
  from tab have "dispatch ''gui'' 7 ?p =
     (case guiToggleCallback ?p of
        None \<Rightarrow> Some ?p
      | Some cb \<Rightarrow> Some (?p\<lparr> gui := cb (gui ?p) \<rparr>))"
    by blast
  then have 2: "map_option gui (dispatch ''gui'' 7 ?p) = Some True"
    by (simp add: AddHandler_def SetTimerManager_def initPolybar_def)
  have 3: "Option.bind (readLines [(''inc'', 1), (''inc'', 2), (''dec'', 3)] ?p)
     (\<lambda>p. durationOf 5 (store p)) = Some (100 * Millisecond + 5 * Second)"
    by (simp add: dispatch_def TimerInc_def TimerDec_def getTimerManager_def
        AddHandler_def SetTimerManager_def initPolybar_def NewTimerManager_emptyWorld
        Inc_def Dec_def durationOf_def NewTimer_def Millisecond_def Second_def
        word_sless_alt)
  from u 1 2 3 show ?thesis by (intro conjI)
qed

subsection \<open>Allocation of the named pipe\<close>

text \<open>What one pass of the loop does, by the answer of the operating system.\<close>

lemma canUseFifo_iff: "canUseFifo env path = (OpenFile env path = None)"
  by (simp add: canUseFifo_def split: option.splits)

lemma mkfifoLoop_created:
  assumes "i < 1000" and "Mkfifo env (candidate base (Getpid env) i) (Perm mode) = None"
  shows "mkfifoLoop env base mode i = Inr (candidate base (Getpid env) i)"
  using assms by (subst mkfifoLoop.simps) simp

lemma mkfifoLoop_reused:
  assumes "i < 1000" and "pathExists env mode (candidate base (Getpid env) i)"
    and "isNamedPipe env (candidate base (Getpid env) i)"
    and "canUseFifo env (candidate base (Getpid env) i)"
  shows "mkfifoLoop env base mode i = Inr (candidate base (Getpid env) i)"
  using assms
  by (subst mkfifoLoop.simps)
     (auto simp: pathExists_def isErrExist_def isNamedPipe_def split: option.splits sum.splits)

lemma mkfifoLoop_skipped:
  assumes "i < 1000" and "pathExists env mode (candidate base (Getpid env) i)"
    and "\<not> (isNamedPipe env (candidate base (Getpid env) i) \<and>
            canUseFifo env (candidate base (Getpid env) i))"
  shows "mkfifoLoop env base mode i = mkfifoLoop env base mode (Suc i)"
  using assms
  by (subst mkfifoLoop.simps)
     (auto simp: pathExists_def isErrExist_def isNamedPipe_def Let_def
           split: option.splits sum.splits)

lemma mkfifoLoop_failed:
  assumes "i < 1000" and "Mkfifo env (candidate base (Getpid env) i) (Perm mode) = Some err"
    and "\<not> isErrExist err"
  shows "mkfifoLoop env base mode i = Inl (MkfifoError (candidate base (Getpid env) i) err)"
  using assms by (subst mkfifoLoop.simps) (auto simp: isErrExist_def)

lemma mkfifoLoop_end: "mkfifoLoop env base mode 1000 = Inl (Exhausted base)"
  by (subst mkfifoLoop.simps) simp

lemma mkfifoLoop_skip_to:
  assumes "i \<le> k" and "k \<le> 1000"
    and "\<And>j. i \<le> j \<Longrightarrow> j < k \<Longrightarrow> skipped env base mode j"
  shows "mkfifoLoop env base mode i = mkfifoLoop env base mode k"
  using assms
proof (induction k rule: dec_induct)
  case base
  show ?case by simp
next
  case (step n)
  then have "mkfifoLoop env base mode i = mkfifoLoop env base mode n" by simp
  also have "\<dots> = mkfifoLoop env base mode (Suc n)"
    using step.hyps step.prems(1) step.prems(2) [of n]
    by (intro mkfifoLoop_skipped) (simp_all add: skipped_def canUseFifo_iff)
  finally show ?case .
qed

lemma mkfifoLoop_pass:
  assumes lt: "i < 1000"
  shows "mkfifoLoop env base mode i = Inr (candidate base (Getpid env) i) \<or>
         mkfifoLoop env base mode i = mkfifoLoop env base mode (Suc i) \<or>
         (\<exists>err. mkfifoLoop env base mode i =
                  Inl (MkfifoError (candidate base (Getpid env) i) err))"
proof (cases "Mkfifo env (candidate base (Getpid env) i) (Perm mode)")
  case None
  with lt show ?thesis by (simp add: mkfifoLoop_created)
next
  case (Some err)
  show ?thesis
  proof (cases "isErrExist err")
    case False
    with lt Some show ?thesis by (simp add: mkfifoLoop_failed)
  next
    case True
    with Some have ex: "pathExists env mode (candidate base (Getpid env) i)"
      by (simp add: pathExists_def isErrExist_def)
    show ?thesis
    proof (cases "isNamedPipe env (candidate base (Getpid env) i) \<and>
                  canUseFifo env (candidate base (Getpid env) i)")
      case True
      with lt ex show ?thesis by (simp add: mkfifoLoop_reused)
    next
      case False
      with lt ex show ?thesis using mkfifoLoop_skipped by blast
    qed
  qed
qed

lemma mkfifoLoop_Inr_range:
  "mkfifoLoop env base mode i = Inr p \<Longrightarrow>
     \<exists>j. i \<le> j \<and> j < 1000 \<and> p = candidate base (Getpid env) j"
proof (induction "1000 - i" arbitrary: i)
  case 0
  then have "\<not> i < 1000" by simp
  with "0.prems" show ?case by (subst (asm) mkfifoLoop.simps) simp
next
  case (Suc n)
  then have lt: "i < 1000" by simp
  from mkfifoLoop_pass [OF lt, of env base mode] Suc.prems
  consider "p = candidate base (Getpid env) i" | "mkfifoLoop env base mode (Suc i) = Inr p"
    by auto
  then show ?case
  proof cases
    case 1
    with lt show ?thesis by auto
  next
    case 2
    from Suc.hyps(2) have "n = 1000 - Suc i" by simp
    from Suc.hyps(1) [OF this 2] show ?thesis using Suc_leD by blast
  qed
qed

text \<open>Two passes never try the same path: the decimal digits of a number determine it.\<close>

lemma digits_nonempty: "digits n \<noteq> []"
  by (subst digits.simps) simp

lemma digit_char_inj:
  assumes "a < 10" and "b < 10" and "''0123456789'' ! a = ''0123456789'' ! b"
  shows "a = b"
proof -
  have "distinct ''0123456789''" by simp
  moreover have "a < length ''0123456789''" "b < length ''0123456789''"
    using assms by simp_all
  ultimately show ?thesis using assms(3) by (simp only: nth_eq_iff_index_eq)
qed

lemma digits_inj: "digits n = digits m \<Longrightarrow> n = m"
proof (induction n arbitrary: m rule: digits.induct)
  case (1 n)
  show ?case
  proof (cases "n < 10")
    case nlt: True
    show ?thesis
    proof (cases "m < 10")
      case True
      with nlt "1.prems" have "''0123456789'' ! n = ''0123456789'' ! m"
        by (simp add: digits.simps [of n] digits.simps [of m])
      with nlt True show ?thesis by (rule digit_char_inj)
    next
      case False
      with nlt "1.prems" digits_nonempty [of "m div 10"] show ?thesis
        by (simp add: digits.simps [of n] digits.simps [of m])
    qed
  next
    case nge: False
    show ?thesis
    proof (cases "m < 10")
      case True
      with nge "1.prems" digits_nonempty [of "n div 10"] show ?thesis
        by (simp add: digits.simps [of n] digits.simps [of m])
    next
      case False
      with nge "1.prems" have eq: "digits (n div 10) = digits (m div 10)"
        and ch: "''0123456789'' ! (n mod 10) = ''0123456789'' ! (m mod 10)"
        by (simp_all add: digits.simps [of n] digits.simps [of m])
      from "1.IH" [OF nge eq] have d: "n div 10 = m div 10" .
      have "n mod 10 = m mod 10"
        by (rule digit_char_inj [OF _ _ ch]) simp_all
      with d show ?thesis by (metis div_mult_mod_eq)
    qed
  qed
qed

lemma candidate_inj:
  "candidate base pid i = candidate base pid j \<Longrightarrow> i = j"
  using digits_inj [of i j]
  by (auto simp: candidate_def fmt_d_def split: if_splits)

text \<open>
  C6: \<open>mkfifoUnique\<close> tries \<open>base.<pid>\<close> in pass 0 and \<open>base.<pid>.<n>\<close> in pass
  \<open>n\<close> for \<open>n = 1, 2, 3, ...\<close>; a path it returns is the candidate of one of the
  passes 0 to 999, and when all 1000 candidates are to be skipped it returns the error
  of exhaustion. When every earlier candidate was skipped, pass \<open>k\<close> returns its
  candidate if \<open>Mkfifo\<close> created it; if its path already exists, the candidate is
  returned exactly when the existing entry is a named pipe and the non-blocking open for
  writing on it succeeds (\<open>OpenFile\<close> returns no error), and otherwise it is skipped:
  the result is that of the passes after \<open>k\<close>.
\<close>

theorem C6_mkfifoUnique_candidates:
  "candidate base pid 0 = base @ ''.'' @ fmt_d pid \<and>
   (\<forall>n. 0 < n \<longrightarrow> candidate base pid n = base @ ''.'' @ fmt_d pid @ ''.'' @ fmt_d (int n)) \<and>
   (\<forall>p. mkfifoUnique env base mode = Inr p \<longrightarrow>
        (\<exists>k<1000. p = candidate base (Getpid env) k)) \<and>
   ((\<forall>j<1000. skipped env base mode j) \<longrightarrow>
      mkfifoUnique env base mode = Inl (Exhausted base)) \<and>
   (\<forall>k<1000. (\<forall>j<k. skipped env base mode j) \<longrightarrow>
      (Mkfifo env (candidate base (Getpid env) k) (Perm mode) = None \<longrightarrow>
         mkfifoUnique env base mode = Inr (candidate base (Getpid env) k)) \<and>
      (pathExists env mode (candidate base (Getpid env) k) \<longrightarrow>
         (mkfifoUnique env base mode = Inr (candidate base (Getpid env) k)) =
         (isNamedPipe env (candidate base (Getpid env) k) \<and>
          OpenFile env (candidate base (Getpid env) k) = None)) \<and>
      (skipped env base mode k \<longrightarrow>
         mkfifoUnique env base mode = mkfifoLoop env base mode (Suc k)))"
proof (intro conjI allI impI)
  show "candidate base pid 0 = base @ ''.'' @ fmt_d pid"
    by (simp add: candidate_def)
next
  fix n :: nat
  assume "0 < n"
  then show "candidate base pid n = base @ ''.'' @ fmt_d pid @ ''.'' @ fmt_d (int n)"
    by (simp add: candidate_def)
next
  fix p
  assume "mkfifoUnique env base mode = Inr p"
  then show "\<exists>k<1000. p = candidate base (Getpid env) k"
    using mkfifoLoop_Inr_range [of env base mode 0 p] by (auto simp: mkfifoUnique_def)
next
  assume "\<forall>j<1000. skipped env base mode j"
  then have "mkfifoLoop env base mode 0 = mkfifoLoop env base mode 1000"
    by (intro mkfifoLoop_skip_to) simp_all
  then show "mkfifoUnique env base mode = Inl (Exhausted base)"
    by (simp add: mkfifoUnique_def mkfifoLoop_end)
next
  fix k :: nat
  assume k: "k < 1000" and sk: "\<forall>j<k. skipped env base mode j"
  let ?c = "candidate base (Getpid env) k"
  have to_k: "mkfifoUnique env base mode = mkfifoLoop env base mode k"
    unfolding mkfifoUnique_def using k sk
    by (intro mkfifoLoop_skip_to) simp_all
  {
    assume "Mkfifo env ?c (Perm mode) = None"
    with k to_k show "mkfifoUnique env base mode = Inr ?c"
      by (simp add: mkfifoLoop_created)
  }
  {
    assume s: "skipped env base mode k"
    with k to_k show "mkfifoUnique env base mode = mkfifoLoop env base mode (Suc k)"
      using mkfifoLoop_skipped [of k env mode base] by (simp add: skipped_def canUseFifo_iff)
  }
  {
    assume ex: "pathExists env mode ?c"
    show "(mkfifoUnique env base mode = Inr ?c) = (isNamedPipe env ?c \<and> OpenFile env ?c = None)"
    proof
      assume "isNamedPipe env ?c \<and> OpenFile env ?c = None"
      with k ex to_k show "mkfifoUnique env base mode = Inr ?c"
        by (simp add: mkfifoLoop_reused canUseFifo_iff)
    next
      assume r: "mkfifoUnique env base mode = Inr ?c"
      show "isNamedPipe env ?c \<and> OpenFile env ?c = None"
      proof (rule ccontr)
        assume "\<not> (isNamedPipe env ?c \<and> OpenFile env ?c = None)"
        then have n: "\<not> (isNamedPipe env ?c \<and> canUseFifo env ?c)"
          by (simp add: canUseFifo_iff)
        with k ex have "mkfifoLoop env base mode k = mkfifoLoop env base mode (Suc k)"
          by (rule mkfifoLoop_skipped)
        with r to_k have "mkfifoLoop env base mode (Suc k) = Inr ?c" by simp
        then obtain j where "Suc k \<le> j" and "?c = candidate base (Getpid env) j"
          using mkfifoLoop_Inr_range by blast
        then show False using candidate_inj [of base "Getpid env" k j] by simp
      qed
    qed
  }
qed

text \<open>
  The witness: process 4242 with base \<open>/tmp/focotimer.pipe\<close> and mode 0666. The first
  candidate exists and is a named pipe, but the non-blocking open for writing on it fails
  with \<open>ENXIO\<close>, so it is skipped; the second exists and is a regular file, so it is
  skipped; the third exists, is a named pipe and the open succeeds, so it is the one
  returned.
\<close>

theorem C6_mkfifoUnique_candidates_witness:
  "mkfifoUnique
     \<lparr> Getpid = 4242,
       Mkfifo = (\<lambda>p m. if p = ''/tmp/focotimer.pipe.4242'' \<or> p = ''/tmp/focotimer.pipe.4242.1''
                         \<or> p = ''/tmp/focotimer.pipe.4242.2''
                       then Some EEXIST else None),
       Lstat = (\<lambda>p. if p = ''/tmp/focotimer.pipe.4242'' then Inr (ModeNamedPipe OR 438)
                     else if p = ''/tmp/focotimer.pipe.4242.1'' then Inr 420
                     else if p = ''/tmp/focotimer.pipe.4242.2'' then Inr (ModeNamedPipe OR 438)
                     else Inl ENOENT),
       OpenFile = (\<lambda>p. if p = ''/tmp/focotimer.pipe.4242.2'' then None else Some ENXIO) \<rparr>
     ''/tmp/focotimer.pipe'' 438 = Inr ''/tmp/focotimer.pipe.4242.2''"
proof -
  let ?env = "\<lparr> Getpid = 4242,
       Mkfifo = (\<lambda>p m. if p = ''/tmp/focotimer.pipe.4242'' \<or> p = ''/tmp/focotimer.pipe.4242.1''
                         \<or> p = ''/tmp/focotimer.pipe.4242.2''
                       then Some EEXIST else None),
       Lstat = (\<lambda>p. if p = ''/tmp/focotimer.pipe.4242'' then Inr (ModeNamedPipe OR 438)
                     else if p = ''/tmp/focotimer.pipe.4242.1'' then Inr 420
                     else if p = ''/tmp/focotimer.pipe.4242.2'' then Inr (ModeNamedPipe OR 438)
                     else Inl ENOENT),
       OpenFile = (\<lambda>p. if p = ''/tmp/focotimer.pipe.4242.2'' then None else Some ENXIO) \<rparr>"
  have c0: "candidate ''/tmp/focotimer.pipe'' 4242 0 = ''/tmp/focotimer.pipe.4242''"
    by (simp add: candidate_def fmt_d_def digits.simps)
  have c1: "candidate ''/tmp/focotimer.pipe'' 4242 (Suc 0) = ''/tmp/focotimer.pipe.4242.1''"
    by (simp add: candidate_def fmt_d_def digits.simps)
  have c2: "candidate ''/tmp/focotimer.pipe'' 4242 2 = ''/tmp/focotimer.pipe.4242.2''"
    by (simp add: candidate_def fmt_d_def digits.simps)
  have s0: "skipped ?env ''/tmp/focotimer.pipe'' 438 0"
    by (simp add: skipped_def c0 pathExists_def isNamedPipe_def isErrExist_def
        ModeNamedPipe_def)
  have s1: "skipped ?env ''/tmp/focotimer.pipe'' 438 (Suc 0)"
    by (simp add: skipped_def c1 pathExists_def isNamedPipe_def isErrExist_def
        ModeNamedPipe_def)
  have sk: "\<forall>j<2. skipped ?env ''/tmp/focotimer.pipe'' 438 j"
  proof (intro allI impI)
    fix j :: nat
    assume "j < 2"
    then have "j = 0 \<or> j = Suc 0" by arith
    with s0 s1 show "skipped ?env ''/tmp/focotimer.pipe'' 438 j" by blast
  qed
  have e2: "pathExists ?env 438 (candidate ''/tmp/focotimer.pipe'' (Getpid ?env) 2)"
    by (simp add: c2 pathExists_def isErrExist_def)
  have r2: "isNamedPipe ?env (candidate ''/tmp/focotimer.pipe'' (Getpid ?env) 2) \<and>
            OpenFile ?env (candidate ''/tmp/focotimer.pipe'' (Getpid ?env) 2) = None"
    by (simp add: c2 isNamedPipe_def ModeNamedPipe_def)
  note pass = C6_mkfifoUnique_candidates [of "''/tmp/focotimer.pipe''" 4242 ?env 438,
      THEN conjunct2, THEN conjunct2, THEN conjunct2, THEN conjunct2, THEN spec, of 2]
  have lt: "(2::nat) < 1000" by simp
  from pass lt sk
  have "pathExists ?env 438 (candidate ''/tmp/focotimer.pipe'' (Getpid ?env) 2) \<longrightarrow>
          (mkfifoUnique ?env ''/tmp/focotimer.pipe'' 438 =
             Inr (candidate ''/tmp/focotimer.pipe'' (Getpid ?env) 2)) =
          (isNamedPipe ?env (candidate ''/tmp/focotimer.pipe'' (Getpid ?env) 2) \<and>
           OpenFile ?env (candidate ''/tmp/focotimer.pipe'' (Getpid ?env) 2) = None)"
    by blast
  with e2 r2
  have "mkfifoUnique ?env ''/tmp/focotimer.pipe'' 438 =
          Inr (candidate ''/tmp/focotimer.pipe'' (Getpid ?env) 2)"
    by blast
  then show ?thesis by (simp add: c2)
qed

subsection \<open>Shutdown\<close>

lemma shutdownInv_init: "shutdownInv path (initSys path fs g w)"
  by (simp add: shutdownInv_def initSys_def initPolybar_def inOnce_def loopRunning_def)

lemma shutdownInvD:
  assumes "shutdownInv path s"
  shows "fifoPipePath (pkg s) = path"
    and "\<And>k. inOnce (callers s k) = (onceM (stopOnce (pkg s)) = Some k)"
    and "\<And>k. callers s k \<noteq> Panicked"
    and "wg (pkg s) = (if loopRunning s then 1 else 0)"
    and "\<And>k. callers s k \<in> {AtUnlock, AtWait, Returned} \<Longrightarrow> onceDone (stopOnce (pkg s))"
    and "\<And>k. callers s k \<in> {AtClose, AtRemove, AtStoreDone} \<Longrightarrow>
           \<not> onceDone (stopOnce (pkg s))"
    and "\<And>k. callers s k = AtRemove \<Longrightarrow> stopping (pkg s) \<and> trace s = [EvClose k]"
    and "\<And>k. callers s k = AtStoreDone \<Longrightarrow>
           stopping (pkg s) \<and> trace s = bodyTrace k path \<and> (path \<noteq> [] \<longrightarrow> path \<notin> files s)"
    and "onceDone (stopOnce (pkg s)) \<Longrightarrow>
           stopping (pkg s) \<and> (\<exists>k. trace s = bodyTrace k path) \<and>
           (path \<noteq> [] \<longrightarrow> path \<notin> files s)"
    and "\<not> onceDone (stopOnce (pkg s)) \<Longrightarrow> (\<And>k. callers s k \<notin> {AtRemove, AtStoreDone}) \<Longrightarrow>
           \<not> stopping (pkg s) \<and> trace s = []"
  using assms unfolding shutdownInv_def by blast+

lemma shutdownInvI:
  assumes "fifoPipePath (pkg s) = path"
    and "\<And>k. inOnce (callers s k) = (onceM (stopOnce (pkg s)) = Some k)"
    and "\<And>k. callers s k \<noteq> Panicked"
    and "wg (pkg s) = (if loopRunning s then 1 else 0)"
    and "\<And>k. callers s k \<in> {AtUnlock, AtWait, Returned} \<Longrightarrow> onceDone (stopOnce (pkg s))"
    and "\<And>k. callers s k \<in> {AtClose, AtRemove, AtStoreDone} \<Longrightarrow>
           \<not> onceDone (stopOnce (pkg s))"
    and "\<And>k. callers s k = AtRemove \<Longrightarrow> stopping (pkg s) \<and> trace s = [EvClose k]"
    and "\<And>k. callers s k = AtStoreDone \<Longrightarrow>
           stopping (pkg s) \<and> trace s = bodyTrace k path \<and> (path \<noteq> [] \<longrightarrow> path \<notin> files s)"
    and "onceDone (stopOnce (pkg s)) \<Longrightarrow>
           stopping (pkg s) \<and> (\<exists>k. trace s = bodyTrace k path) \<and>
           (path \<noteq> [] \<longrightarrow> path \<notin> files s)"
    and "\<not> onceDone (stopOnce (pkg s)) \<Longrightarrow> (\<And>k. callers s k \<notin> {AtRemove, AtStoreDone}) \<Longrightarrow>
           \<not> stopping (pkg s) \<and> trace s = []"
  shows "shutdownInv path s"
  unfolding shutdownInv_def using assms by blast


lemma setpc_simps [simp]:
  "callers (setpc k pc s) k' = (if k' = k then pc else callers s k')"
  "pkg (setpc k pc s) = pkg s" "files (setpc k pc s) = files s"
  "loop (setpc k pc s) = loop s" "trace (setpc k pc s) = trace s"
  "writers (setpc k pc s) = writers s" "pipe (setpc k pc s) = pipe s"
  "loopRunning (setpc k pc s) = loopRunning s"
  by (simp_all add: setpc_def loopRunning_def)

lemma setOnce_simps [simp]:
  "callers (setOnce on s) = callers s"
  "stopOnce (pkg (setOnce on s)) = on" "fifoPipePath (pkg (setOnce on s)) = fifoPipePath (pkg s)"
  "wg (pkg (setOnce on s)) = wg (pkg s)" "stopping (pkg (setOnce on s)) = stopping (pkg s)"
  "files (setOnce on s) = files s"
  "loop (setOnce on s) = loop s" "trace (setOnce on s) = trace s"
  "writers (setOnce on s) = writers s" "pipe (setOnce on s) = pipe s"
  "loopRunning (setOnce on s) = loopRunning s"
  by (simp_all add: setOnce_def loopRunning_def)

lemma holder_unique:
  assumes "shutdownInv path s" and "inOnce (callers s k)" and "inOnce (callers s k')"
  shows "k' = k"
  using shutdownInvD(2) [OF assms(1)] assms(2,3) by simp

lemma step_AtClose:
  assumes inv: "shutdownInv path s" and pc: "callers s k = AtClose"
    and st: "stepCall k s = Some s'"
  shows "shutdownInv path s'"
proof -
  note D = shutdownInvD [OF inv]
  have io: "inOnce (callers s k)" using pc by (simp add: inOnce_def)
  have nd: "\<not> onceDone (stopOnce (pkg s))" using D(6) [of k] pc by simp
  have others: "callers s k' \<notin> {AtRemove, AtStoreDone}" for k'
  proof
    assume a: "callers s k' \<in> {AtRemove, AtStoreDone}"
    then have "inOnce (callers s k')" by (auto simp: inOnce_def)
    from holder_unique [OF inv io this] a pc show False by simp
  qed
  from D(10) [OF nd others] have ns: "\<not> stopping (pkg s)" and tr: "trace s = []" by simp_all
  from st pc ns have s': "s' = setpc k AtRemove
      (s\<lparr> pkg := (pkg s)\<lparr> stopping := True \<rparr>, trace := trace s @ [EvClose k] \<rparr>)"
    by (simp add: stepCall_def)
  show ?thesis
  proof (rule shutdownInvI)
    show "fifoPipePath (pkg s') = path" using D(1) by (simp add: s')
    show "inOnce (callers s' j) = (onceM (stopOnce (pkg s')) = Some j)" for j
      using D(2) [of j] D(2) [of k] pc by (simp add: s' inOnce_def)
    show "callers s' j \<noteq> Panicked" for j using D(3) [of j] by (simp add: s')
    show "wg (pkg s') = (if loopRunning s' then 1 else 0)" using D(4) by (simp add: s' loopRunning_def)
    show "onceDone (stopOnce (pkg s'))" if "callers s' j \<in> {AtUnlock, AtWait, Returned}" for j
      using that D(5) [of j] by (simp add: s' split: if_splits)
    show "\<not> onceDone (stopOnce (pkg s'))" if "callers s' j \<in> {AtClose, AtRemove, AtStoreDone}" for j
      using nd by (simp add: s')
    show "stopping (pkg s') \<and> trace s' = [EvClose j]" if "callers s' j = AtRemove" for j
      using that others [of j] tr by (simp add: s' split: if_splits)
    show "stopping (pkg s') \<and> trace s' = bodyTrace j path \<and> (path \<noteq> [] \<longrightarrow> path \<notin> files s')"
      if "callers s' j = AtStoreDone" for j
      using that others [of j] by (simp add: s' split: if_splits)
    show "stopping (pkg s') \<and> (\<exists>k. trace s' = bodyTrace k path) \<and> (path \<noteq> [] \<longrightarrow> path \<notin> files s')"
      if "onceDone (stopOnce (pkg s'))"
      using that nd by (simp add: s')
    show "\<not> stopping (pkg s') \<and> trace s' = []"
      if "\<not> onceDone (stopOnce (pkg s'))" and "\<And>j. callers s' j \<notin> {AtRemove, AtStoreDone}"
      using that(2) [of k] by (simp add: s')
  qed
qed


lemma step_pc_only:
  assumes inv: "shutdownInv path s" and pc: "callers s k = pc0"
    and io: "inOnce pc' = inOnce pc0" and np: "pc' \<noteq> Panicked"
    and dn: "pc' \<in> {AtUnlock, AtWait, Returned} \<Longrightarrow> onceDone (stopOnce (pkg s))"
    and nd: "pc' \<in> {AtClose, AtRemove, AtStoreDone} \<Longrightarrow> \<not> onceDone (stopOnce (pkg s))"
    and new: "pc' \<notin> {AtRemove, AtStoreDone}" and old: "pc0 \<notin> {AtRemove, AtStoreDone}"
  shows "shutdownInv path (setpc k pc' s)"
proof -
  note D = shutdownInvD [OF inv]
  let ?s = "setpc k pc' s"
  show ?thesis
  proof (rule shutdownInvI)
    show "fifoPipePath (pkg ?s) = path" using D(1) by simp
    show "inOnce (callers ?s j) = (onceM (stopOnce (pkg ?s)) = Some j)" for j
      using D(2) [of j] pc io by (cases "j = k") auto
    show "callers ?s j \<noteq> Panicked" for j using D(3) [of j] np by simp
    show "wg (pkg ?s) = (if loopRunning ?s then 1 else 0)" using D(4) by simp
    show "onceDone (stopOnce (pkg ?s))" if "callers ?s j \<in> {AtUnlock, AtWait, Returned}" for j
      using that D(5) [of j] dn by (simp split: if_splits)
    show "\<not> onceDone (stopOnce (pkg ?s))" if "callers ?s j \<in> {AtClose, AtRemove, AtStoreDone}" for j
      using that D(6) [of j] nd by (simp split: if_splits)
    show "stopping (pkg ?s) \<and> trace ?s = [EvClose j]" if "callers ?s j = AtRemove" for j
      using that D(7) [of j] new by (simp split: if_splits)
    show "stopping (pkg ?s) \<and> trace ?s = bodyTrace j path \<and> (path \<noteq> [] \<longrightarrow> path \<notin> files ?s)"
      if "callers ?s j = AtStoreDone" for j
      using that D(8) [of j] new by (simp split: if_splits)
    show "stopping (pkg ?s) \<and> (\<exists>k. trace ?s = bodyTrace k path) \<and> (path \<noteq> [] \<longrightarrow> path \<notin> files ?s)"
      if "onceDone (stopOnce (pkg ?s))"
      using that D(9) by simp
    show "\<not> stopping (pkg ?s) \<and> trace ?s = []"
      if a: "\<not> onceDone (stopOnce (pkg ?s))" and b: "\<And>j. callers ?s j \<notin> {AtRemove, AtStoreDone}"
    proof -
      have "callers s j \<notin> {AtRemove, AtStoreDone}" for j
        using b [of j] pc old by (cases "j = k") simp_all
      with a D(10) show ?thesis by simp
    qed
  qed
qed

lemma step_AtLock:
  assumes inv: "shutdownInv path s" and pc: "callers s k = AtLock"
    and st: "stepCall k s = Some s'"
  shows "shutdownInv path s'"
proof -
  note D = shutdownInvD [OF inv]
  from st pc have free: "onceM (stopOnce (pkg s)) = None"
    and s': "s' = setpc k InOnce (setOnce ((stopOnce (pkg s))\<lparr> onceM := Some k \<rparr>) s)"
    by (simp_all add: stepCall_def split: option.splits)
  have out: "\<not> inOnce (callers s j)" for j using D(2) [of j] free by simp
  show ?thesis
  proof (rule shutdownInvI)
    show "fifoPipePath (pkg s') = path" using D(1) by (simp add: s')
    show "inOnce (callers s' j) = (onceM (stopOnce (pkg s')) = Some j)" for j
      using out [of j] by (auto simp: s' inOnce_def)
    show "callers s' j \<noteq> Panicked" for j using D(3) [of j] by (simp add: s')
    show "wg (pkg s') = (if loopRunning s' then 1 else 0)" using D(4) by (simp add: s' loopRunning_def)
    show "onceDone (stopOnce (pkg s'))" if "callers s' j \<in> {AtUnlock, AtWait, Returned}" for j
      using that D(5) [of j] by (simp add: s' split: if_splits)
    show "\<not> onceDone (stopOnce (pkg s'))" if "callers s' j \<in> {AtClose, AtRemove, AtStoreDone}" for j
      using that D(6) [of j] by (simp add: s' split: if_splits)
    show "stopping (pkg s') \<and> trace s' = [EvClose j]" if "callers s' j = AtRemove" for j
      using that D(7) [of j] by (simp add: s' split: if_splits)
    show "stopping (pkg s') \<and> trace s' = bodyTrace j path \<and> (path \<noteq> [] \<longrightarrow> path \<notin> files s')"
      if "callers s' j = AtStoreDone" for j
      using that D(8) [of j] by (simp add: s' split: if_splits)
    show "stopping (pkg s') \<and> (\<exists>k. trace s' = bodyTrace k path) \<and> (path \<noteq> [] \<longrightarrow> path \<notin> files s')"
      if "onceDone (stopOnce (pkg s'))"
      using that D(9) by (simp add: s')
    show "\<not> stopping (pkg s') \<and> trace s' = []"
      if a: "\<not> onceDone (stopOnce (pkg s'))" and b: "\<And>j. callers s' j \<notin> {AtRemove, AtStoreDone}"
    proof -
      have "callers s j \<notin> {AtRemove, AtStoreDone}" for j
        using b [of j] pc by (cases "j = k") (simp_all add: s')
      with a D(10) show ?thesis by (simp add: s')
    qed
  qed
qed

lemma step_AtRemove:
  assumes inv: "shutdownInv path s" and pc: "callers s k = AtRemove"
    and st: "stepCall k s = Some s'"
  shows "shutdownInv path s'"
proof -
  note D = shutdownInvD [OF inv]
  have io: "inOnce (callers s k)" using pc by (simp add: inOnce_def)
  have nd: "\<not> onceDone (stopOnce (pkg s))" using D(6) [of k] pc by simp
  from D(7) [of k] pc have cl: "stopping (pkg s)" and tr: "trace s = [EvClose k]" by simp_all
  have others: "j = k" if "callers s j \<in> {AtRemove, AtStoreDone}" for j
  proof -
    from that have "inOnce (callers s j)" by (auto simp: inOnce_def)
    from holder_unique [OF inv io this] show ?thesis .
  qed
  from st pc D(1) have s': "s' = (if path \<noteq> []
      then setpc k AtStoreDone
             (s\<lparr> files := files s - {path}, trace := trace s @ [EvRemove k path] \<rparr>)
      else setpc k AtStoreDone s)"
    by (auto simp: stepCall_def split: if_splits)
  show ?thesis
  proof (rule shutdownInvI)
    show "fifoPipePath (pkg s') = path" using D(1) by (simp add: s')
    show "inOnce (callers s' j) = (onceM (stopOnce (pkg s')) = Some j)" for j
      using D(2) [of j] D(2) [of k] pc by (simp add: s' inOnce_def)
    show "callers s' j \<noteq> Panicked" for j using D(3) [of j] by (simp add: s')
    show "wg (pkg s') = (if loopRunning s' then 1 else 0)" using D(4) by (simp add: s' loopRunning_def)
    show "onceDone (stopOnce (pkg s'))" if "callers s' j \<in> {AtUnlock, AtWait, Returned}" for j
      using that D(5) [of j] by (simp add: s' split: if_splits)
    show "\<not> onceDone (stopOnce (pkg s'))" if "callers s' j \<in> {AtClose, AtRemove, AtStoreDone}" for j
      using nd by (simp add: s')
    show "stopping (pkg s') \<and> trace s' = [EvClose j]" if "callers s' j = AtRemove" for j
      using that others [of j] by (auto simp: s' split: if_splits)
    show "stopping (pkg s') \<and> trace s' = bodyTrace j path \<and> (path \<noteq> [] \<longrightarrow> path \<notin> files s')"
      if "callers s' j = AtStoreDone" for j
    proof -
      have "j = k" using that others [of j] by (cases "j = k") (simp_all add: s' split: if_splits)
      with cl tr show ?thesis by (simp add: s' bodyTrace_def)
    qed
    show "stopping (pkg s') \<and> (\<exists>k. trace s' = bodyTrace k path) \<and> (path \<noteq> [] \<longrightarrow> path \<notin> files s')"
      if "onceDone (stopOnce (pkg s'))"
      using that nd by (simp add: s' split: if_splits)
    show "\<not> stopping (pkg s') \<and> trace s' = []"
      if "\<not> onceDone (stopOnce (pkg s'))" and "\<And>j. callers s' j \<notin> {AtRemove, AtStoreDone}"
      using that(2) [of k] by (simp add: s' split: if_splits)
  qed
qed

lemma step_AtStoreDone:
  assumes inv: "shutdownInv path s" and pc: "callers s k = AtStoreDone"
    and st: "stepCall k s = Some s'"
  shows "shutdownInv path s'"
proof -
  note D = shutdownInvD [OF inv]
  have io: "inOnce (callers s k)" using pc by (simp add: inOnce_def)
  from D(8) [of k] pc have cl: "stopping (pkg s)" and tr: "trace s = bodyTrace k path"
    and fl: "path \<noteq> [] \<longrightarrow> path \<notin> files s" by simp_all
  have others: "j = k" if "inOnce (callers s j)" for j
    using holder_unique [OF inv io that] .
  from st pc have s': "s' = setpc k AtUnlock
      (setOnce ((stopOnce (pkg s))\<lparr> onceDone := True \<rparr>) s)"
    by (simp add: stepCall_def)
  show ?thesis
  proof (rule shutdownInvI)
    show "fifoPipePath (pkg s') = path" using D(1) by (simp add: s')
    show "inOnce (callers s' j) = (onceM (stopOnce (pkg s')) = Some j)" for j
      using D(2) [of j] D(2) [of k] pc by (simp add: s' inOnce_def)
    show "callers s' j \<noteq> Panicked" for j using D(3) [of j] by (simp add: s')
    show "wg (pkg s') = (if loopRunning s' then 1 else 0)" using D(4) by (simp add: s' loopRunning_def)
    show "onceDone (stopOnce (pkg s'))" if "callers s' j \<in> {AtUnlock, AtWait, Returned}" for j
      by (simp add: s')
    show "\<not> onceDone (stopOnce (pkg s'))" if "callers s' j \<in> {AtClose, AtRemove, AtStoreDone}" for j
    proof -
      from that have "j \<noteq> k" by (auto simp: s')
      moreover from that this have "inOnce (callers s j)" by (auto simp: s' inOnce_def)
      ultimately show ?thesis using others [of j] by simp
    qed
    show "stopping (pkg s') \<and> trace s' = [EvClose j]" if "callers s' j = AtRemove" for j
    proof -
      from that have "j \<noteq> k" by (auto simp: s')
      moreover from that this have "inOnce (callers s j)" by (auto simp: s' inOnce_def)
      ultimately show ?thesis using others [of j] by simp
    qed
    show "stopping (pkg s') \<and> trace s' = bodyTrace j path \<and> (path \<noteq> [] \<longrightarrow> path \<notin> files s')"
      if "callers s' j = AtStoreDone" for j
    proof -
      from that have "j \<noteq> k" by (auto simp: s')
      moreover from that this have "inOnce (callers s j)" by (auto simp: s' inOnce_def)
      ultimately show ?thesis using others [of j] by simp
    qed
    show "stopping (pkg s') \<and> (\<exists>k. trace s' = bodyTrace k path) \<and> (path \<noteq> [] \<longrightarrow> path \<notin> files s')"
      if "onceDone (stopOnce (pkg s'))"
      using cl tr fl by (auto simp: s')
    show "\<not> stopping (pkg s') \<and> trace s' = []"
      if "\<not> onceDone (stopOnce (pkg s'))" and "\<And>j. callers s' j \<notin> {AtRemove, AtStoreDone}"
      using that(1) by (simp add: s')
  qed
qed

lemma step_AtUnlock:
  assumes inv: "shutdownInv path s" and pc: "callers s k = AtUnlock"
    and st: "stepCall k s = Some s'"
  shows "shutdownInv path s'"
proof -
  note D = shutdownInvD [OF inv]
  have io: "inOnce (callers s k)" using pc by (simp add: inOnce_def)
  have dn: "onceDone (stopOnce (pkg s))" using D(5) [of k] pc by simp
  have others: "j = k" if "inOnce (callers s j)" for j
    using holder_unique [OF inv io that] .
  from st pc have s': "s' = setpc k AtWait
      (setOnce ((stopOnce (pkg s))\<lparr> onceM := None \<rparr>) s)"
    by (simp add: stepCall_def)
  show ?thesis
  proof (rule shutdownInvI)
    show "fifoPipePath (pkg s') = path" using D(1) by (simp add: s')
    show "inOnce (callers s' j) = (onceM (stopOnce (pkg s')) = Some j)" for j
      using others [of j] by (auto simp: s' inOnce_def)
    show "callers s' j \<noteq> Panicked" for j using D(3) [of j] by (simp add: s')
    show "wg (pkg s') = (if loopRunning s' then 1 else 0)" using D(4) by (simp add: s' loopRunning_def)
    show "onceDone (stopOnce (pkg s'))" if "callers s' j \<in> {AtUnlock, AtWait, Returned}" for j
      using dn by (simp add: s')
    show "\<not> onceDone (stopOnce (pkg s'))" if "callers s' j \<in> {AtClose, AtRemove, AtStoreDone}" for j
      using that D(6) [of j] by (simp add: s' split: if_splits)
    show "stopping (pkg s') \<and> trace s' = [EvClose j]" if "callers s' j = AtRemove" for j
      using that D(7) [of j] by (simp add: s' split: if_splits)
    show "stopping (pkg s') \<and> trace s' = bodyTrace j path \<and> (path \<noteq> [] \<longrightarrow> path \<notin> files s')"
      if "callers s' j = AtStoreDone" for j
      using that D(8) [of j] by (simp add: s' split: if_splits)
    show "stopping (pkg s') \<and> (\<exists>k. trace s' = bodyTrace k path) \<and> (path \<noteq> [] \<longrightarrow> path \<notin> files s')"
      if "onceDone (stopOnce (pkg s'))"
      using D(9) [OF dn] by (simp add: s')
    show "\<not> stopping (pkg s') \<and> trace s' = []"
      if "\<not> onceDone (stopOnce (pkg s'))" and "\<And>j. callers s' j \<notin> {AtRemove, AtStoreDone}"
      using that(1) dn by (simp add: s')
  qed
qed


lemma shutdownInv_stepCall:
  assumes inv: "shutdownInv path s" and st: "stepCall k s = Some s'"
  shows "shutdownInv path s'"
proof (cases "callers s k")
  case NotCalled
  with st have "s' = setpc k AtDo s" by (simp add: stepCall_def)
  with step_pc_only [OF inv NotCalled, of AtDo] show ?thesis by (simp add: inOnce_def)
next
  case AtDo
  note D = shutdownInvD [OF inv]
  show ?thesis
  proof (cases "onceDone (stopOnce (pkg s))")
    case True
    with st AtDo have "s' = setpc k AtWait s" by (simp add: stepCall_def)
    with step_pc_only [OF inv AtDo, of AtWait] True show ?thesis by (simp add: inOnce_def)
  next
    case False
    with st AtDo have "s' = setpc k AtLock s" by (simp add: stepCall_def)
    with step_pc_only [OF inv AtDo, of AtLock] show ?thesis by (simp add: inOnce_def)
  qed
next
  case AtLock
  from inv AtLock st show ?thesis by (rule step_AtLock)
next
  case InOnce
  show ?thesis
  proof (cases "onceDone (stopOnce (pkg s))")
    case True
    with st InOnce have "s' = setpc k AtUnlock s" by (simp add: stepCall_def)
    with step_pc_only [OF inv InOnce, of AtUnlock] True show ?thesis by (simp add: inOnce_def)
  next
    case False
    with st InOnce have "s' = setpc k AtClose s" by (simp add: stepCall_def)
    with step_pc_only [OF inv InOnce, of AtClose] False show ?thesis by (simp add: inOnce_def)
  qed
next
  case AtClose
  from inv AtClose st show ?thesis by (rule step_AtClose)
next
  case AtRemove
  from inv AtRemove st show ?thesis by (rule step_AtRemove)
next
  case AtStoreDone
  from inv AtStoreDone st show ?thesis by (rule step_AtStoreDone)
next
  case AtUnlock
  from inv AtUnlock st show ?thesis by (rule step_AtUnlock)
next
  case AtWait
  note D = shutdownInvD [OF inv]
  from st AtWait have "s' = setpc k Returned s"
    by (simp add: stepCall_def split: if_splits)
  with step_pc_only [OF inv AtWait, of Returned] D(5) [of k] AtWait show ?thesis
    by (simp add: inOnce_def)
next
  case Returned
  with st show ?thesis by (simp add: stepCall_def)
next
  case Panicked
  with st show ?thesis by (simp add: stepCall_def)
qed

text \<open>
  The steps of the dispatch loop and of the writers leave alone everything the invariant
  reads but the state of the loop and the counter of \<open>wg\<close>.
\<close>

lemma shutdownInv_env:
  assumes inv: "shutdownInv path s"
    and c: "callers s' = callers s" and f: "files s' = files s" and t: "trace s' = trace s"
    and p: "fifoPipePath (pkg s') = fifoPipePath (pkg s)"
    and o: "stopOnce (pkg s') = stopOnce (pkg s)"
    and st: "stopping (pkg s') = stopping (pkg s)"
    and n: "wg (pkg s') = (if loopRunning s' then 1 else 0)"
  shows "shutdownInv path s'"
proof -
  note D = shutdownInvD [OF inv]
  show ?thesis
  proof (rule shutdownInvI)
    show "fifoPipePath (pkg s') = path" using D(1) by (simp add: p)
    show "inOnce (callers s' j) = (onceM (stopOnce (pkg s')) = Some j)" for j
      using D(2) [of j] by (simp add: c o)
    show "callers s' j \<noteq> Panicked" for j using D(3) [of j] by (simp add: c)
    show "wg (pkg s') = (if loopRunning s' then 1 else 0)" using n .
    show "onceDone (stopOnce (pkg s'))" if "callers s' j \<in> {AtUnlock, AtWait, Returned}" for j
      using that D(5) [of j] by (simp add: c o)
    show "\<not> onceDone (stopOnce (pkg s'))" if "callers s' j \<in> {AtClose, AtRemove, AtStoreDone}" for j
      using that D(6) [of j] by (simp add: c o)
    show "stopping (pkg s') \<and> trace s' = [EvClose j]" if "callers s' j = AtRemove" for j
      using that D(7) [of j] by (simp add: c st t)
    show "stopping (pkg s') \<and> trace s' = bodyTrace j path \<and> (path \<noteq> [] \<longrightarrow> path \<notin> files s')"
      if "callers s' j = AtStoreDone" for j
      using that D(8) [of j] by (simp add: c st t f)
    show "stopping (pkg s') \<and> (\<exists>k. trace s' = bodyTrace k path) \<and> (path \<noteq> [] \<longrightarrow> path \<notin> files s')"
      if "onceDone (stopOnce (pkg s'))"
      using that D(9) by (simp add: o st t f)
    show "\<not> stopping (pkg s') \<and> trace s' = []"
      if a: "\<not> onceDone (stopOnce (pkg s'))" and b: "\<And>j. callers s' j \<notin> {AtRemove, AtStoreDone}"
    proof -
      have "callers s j \<notin> {AtRemove, AtStoreDone}" for j using b [of j] by (simp add: c)
      with a D(10) show ?thesis by (simp add: o st t)
    qed
  qed
qed

text \<open>A command changes the store of the manager and the state of the callback only.\<close>

lemma dispatch_frame:
  assumes "dispatch cmd now p = Some p'"
  shows "fifoPipePath p' = fifoPipePath p \<and> stopOnce p' = stopOnce p \<and>
         stopping p' = stopping p \<and> wg p' = wg p"
  using assms
  by (auto simp: dispatch_def TimerStart_def TimerStop_def TimerInc_def TimerDec_def
      split: if_splits option.splits)

lemma shutdownInv_stepLoop:
  assumes inv: "shutdownInv path s" and st: "stepLoop now s = Some s'"
  shows "shutdownInv path s'"
proof -
  note D = shutdownInvD [OF inv]
  from st have run: "loopRunning s" by (auto simp: stepLoop_def loopRunning_def)
  have keep: "callers s' = callers s \<and> files s' = files s \<and> trace s' = trace s \<and>
      fifoPipePath (pkg s') = fifoPipePath (pkg s) \<and>
      stopOnce (pkg s') = stopOnce (pkg s) \<and> stopping (pkg s') = stopping (pkg s) \<and>
      wg (pkg s') = wg (pkg s) \<and> loopRunning s'"
  proof (cases "loop s")
    case LRead
    show ?thesis
    proof (cases "pipe s")
      case Nil
      with st LRead show ?thesis
        by (auto simp: stepLoop_def loopRunning_def split: if_splits)
    next
      case (Cons cmd rest)
      with st LRead obtain p where d: "dispatch cmd now (pkg s) = Some p"
        and s': "s' = s\<lparr> pkg := p, pipe := rest \<rparr>"
        by (auto simp: stepLoop_def split: option.splits)
      from dispatch_frame [OF d] run show ?thesis by (simp add: s' loopRunning_def)
    qed
  qed (use st in \<open>auto simp: stepLoop_def loopRunning_def split: if_splits\<close>)
  with D(4) run have "wg (pkg s') = (if loopRunning s' then 1 else 0)" by simp
  with keep show ?thesis by (intro shutdownInv_env [OF inv]) simp_all
qed

lemma shutdownInv_exec:
  assumes inv: "shutdownInv path s" and ex: "exec a s = Some s'"
  shows "shutdownInv path s'"
proof (cases a)
  case (Call k)
  with inv ex show ?thesis by (simp add: shutdownInv_stepCall)
next
  case LoopStart
  note D = shutdownInvD [OF inv]
  from LoopStart ex have l: "loop s = NotStarted"
    and s': "s' = s\<lparr> loop := LTop, pkg := (pkg s)\<lparr> wg := wg (pkg s) + 1 \<rparr> \<rparr>"
    by (simp_all split: if_splits)
  from D(4) l have "wg (pkg s') = (if loopRunning s' then 1 else 0)"
    by (simp add: s' loopRunning_def)
  then show ?thesis by (intro shutdownInv_env [OF inv]) (simp_all add: s')
next
  case (LoopGo now)
  with inv ex show ?thesis by (simp add: shutdownInv_stepLoop)
next
  case LoopStop
  note D = shutdownInvD [OF inv]
  from LoopStop ex have l: "loop s \<in> {LTop, LOpenErr, LClosing}" and s': "s' = loopReturn s"
    by (simp_all split: if_splits)
  from D(4) l have "wg (pkg s') = (if loopRunning s' then 1 else 0)"
    by (auto simp: s' loopReturn_def loopRunning_def)
  then show ?thesis by (intro shutdownInv_env [OF inv]) (simp_all add: s' loopReturn_def)
next
  case WriterOpen
  note D = shutdownInvD [OF inv]
  from WriterOpen ex have s': "s' = s\<lparr> writers := Suc (writers s) \<rparr>"
    by (simp split: if_splits)
  from D(4) have "wg (pkg s') = (if loopRunning s' then 1 else 0)"
    by (simp add: s' loopRunning_def)
  then show ?thesis by (intro shutdownInv_env [OF inv]) (simp_all add: s')
next
  case (WriterWrite l)
  note D = shutdownInvD [OF inv]
  from WriterWrite ex have s': "s' = s\<lparr> pipe := pipe s @ [l] \<rparr>"
    by (simp split: if_splits)
  from D(4) have "wg (pkg s') = (if loopRunning s' then 1 else 0)"
    by (simp add: s' loopRunning_def)
  then show ?thesis by (intro shutdownInv_env [OF inv]) (simp_all add: s')
next
  case WriterClose
  note D = shutdownInvD [OF inv]
  from WriterClose ex have s': "s' = s\<lparr> writers := writers s - 1 \<rparr>"
    by (simp split: if_splits)
  from D(4) have "wg (pkg s') = (if loopRunning s' then 1 else 0)"
    by (simp add: s' loopRunning_def)
  then show ?thesis by (intro shutdownInv_env [OF inv]) (simp_all add: s')
qed

lemma shutdownInv_run:
  "shutdownInv path s \<Longrightarrow> run acts s = Some s' \<Longrightarrow> shutdownInv path s'"
proof (induction acts arbitrary: s)
  case Nil
  then show ?case by simp
next
  case (Cons a acts)
  from Cons.prems(2) obtain s1 where ex: "exec a s = Some s1" and rest: "run acts s1 = Some s'"
    by (auto split: option.splits)
  from Cons.IH [OF shutdownInv_exec [OF Cons.prems(1) ex] rest] show ?case .
qed

lemma run_append: "run (as @ bs) s = Option.bind (run as s) (run bs)"
  by (induction as arbitrary: s) (auto split: option.splits)


text \<open>
  What holds of \<open>Shutdown\<close> in every state that an interleaving of any number of
  invocations with the dispatch loop and the writers of the pipe can reach: no invocation
  has panicked; \<open>stopping\<close> has been closed at most once and the pipe file removed at
  most once, both by the one invocation that ran the body of the \<open>Once\<close>; once any
  invocation is past \<open>stopOnce.Do\<close>, \<open>stopping\<close> is closed, it was closed exactly
  once and, when there is a pipe path, the file was removed exactly once and is gone; an
  invocation in \<open>wg.Wait()\<close> can return exactly when the dispatch loop is not running;
  and an invocation that cannot take a step is either in \<open>wg.Wait()\<close> while the loop
  runs, or waits for the mutex of the \<open>Once\<close> whose holder can take a step.
\<close>

lemma Shutdown_safety:
  assumes "run acts (initSys path fs g w) = Some s"
  shows "(\<forall>k. callers s k \<noteq> Panicked) \<and>
    (trace s = [] \<or> (\<exists>c. trace s = [EvClose c] \<or> trace s = bodyTrace c path)) \<and>
    (\<forall>k. callers s k \<in> {AtWait, Returned} \<longrightarrow>
       stopping (pkg s) \<and> (\<exists>c. trace s = bodyTrace c path) \<and>
       (path \<noteq> [] \<longrightarrow> path \<notin> files s)) \<and>
    (\<forall>k. callers s k = AtWait \<longrightarrow> (stepCall k s = None) = loopRunning s) \<and>
    (\<forall>k s'. callers s k = AtWait \<and> stepCall k s = Some s' \<longrightarrow>
       callers s' k = Returned \<and> \<not> loopRunning s') \<and>
    (\<forall>k. callers s k \<notin> {NotCalled, Returned} \<and> stepCall k s = None \<longrightarrow>
       (callers s k = AtWait \<and> loopRunning s) \<or>
       (callers s k = AtLock \<and>
        (\<exists>h. onceM (stopOnce (pkg s)) = Some h \<and> stepCall h s \<noteq> None)))"
proof -
  have inv: "shutdownInv path s"
    using shutdownInv_run [OF shutdownInv_init assms] .
  note D = shutdownInvD [OF inv]
  have 1: "\<forall>k. callers s k \<noteq> Panicked" using D(3) by simp
  have 2: "trace s = [] \<or> (\<exists>c. trace s = [EvClose c] \<or> trace s = bodyTrace c path)"
  proof (cases "onceDone (stopOnce (pkg s))")
    case True
    with D(9) show ?thesis by blast
  next
    case nd: False
    show ?thesis
    proof (cases "\<exists>j. callers s j \<in> {AtRemove, AtStoreDone}")
      case True
      then obtain j where "callers s j = AtRemove \<or> callers s j = AtStoreDone" by auto
      with D(7) [of j] D(8) [of j] show ?thesis by blast
    next
      case False
      with D(10) [OF nd] show ?thesis by simp
    qed
  qed
  have 3: "\<forall>k. callers s k \<in> {AtWait, Returned} \<longrightarrow>
       stopping (pkg s) \<and> (\<exists>c. trace s = bodyTrace c path) \<and>
       (path \<noteq> [] \<longrightarrow> path \<notin> files s)"
  proof (intro allI impI)
    fix k assume "callers s k \<in> {AtWait, Returned}"
    then have "onceDone (stopOnce (pkg s))" using D(5) [of k] by simp
    from D(9) [OF this] show "stopping (pkg s) \<and> (\<exists>c. trace s = bodyTrace c path) \<and>
       (path \<noteq> [] \<longrightarrow> path \<notin> files s)" .
  qed
  have 4: "\<forall>k. callers s k = AtWait \<longrightarrow> (stepCall k s = None) = loopRunning s"
    using D(4) by (simp add: stepCall_def)
  have 5: "\<forall>k s'. callers s k = AtWait \<and> stepCall k s = Some s' \<longrightarrow>
       callers s' k = Returned \<and> \<not> loopRunning s'"
    using D(4) by (auto simp: stepCall_def split: if_splits)
  have 6: "\<forall>k. callers s k \<notin> {NotCalled, Returned} \<and> stepCall k s = None \<longrightarrow>
       (callers s k = AtWait \<and> loopRunning s) \<or>
       (callers s k = AtLock \<and>
        (\<exists>h. onceM (stopOnce (pkg s)) = Some h \<and> stepCall h s \<noteq> None))"
  proof (intro allI impI, elim conjE)
    fix k
    assume pc: "callers s k \<notin> {NotCalled, Returned}" and blocked: "stepCall k s = None"
    show "(callers s k = AtWait \<and> loopRunning s) \<or>
       (callers s k = AtLock \<and>
        (\<exists>h. onceM (stopOnce (pkg s)) = Some h \<and> stepCall h s \<noteq> None))"
    proof (cases "callers s k")
      case AtWait
      with blocked 4 show ?thesis by simp
    next
      case AtLock
      with blocked obtain h where h: "onceM (stopOnce (pkg s)) = Some h"
        by (auto simp: stepCall_def split: option.splits)
      with D(2) [of h] have "inOnce (callers s h)" by simp
      then have "stepCall h s \<noteq> None"
        by (auto simp: inOnce_def stepCall_def split: if_splits)
      with AtLock h show ?thesis by simp
    next
      case Panicked
      with D(3) [of k] show ?thesis by simp
    qed (use pc blocked in \<open>simp_all add: stepCall_def split: if_splits\<close>)
  qed
  from 1 2 3 4 5 6 show ?thesis by (intro conjI)
qed

text \<open>
  With the dispatch loop not started, three invocations that enter \<open>Shutdown\<close> together
  all return, and the pipe file is removed once: invocation 1 wins the mutex of the
  \<open>Once\<close>, 0 and 2 find \<open>done\<close> set.
\<close>

lemma Shutdown_three_concurrent:
  "map_option (\<lambda>s. (map (callers s) [0, 1, 2], trace s, files s, stopping (pkg s)))
     (run [Call 0, Call 1, Call 2, Call 0, Call 1, Call 2,
           Call 1, Call 1, Call 1, Call 1, Call 1, Call 1,
           Call 0, Call 0, Call 0, Call 2, Call 2, Call 2,
           Call 0, Call 1, Call 2]
        (initSys ''/tmp/focotimer.pipe.4242'' {''/tmp/focotimer.pipe.4242''} () emptyWorld)) =
   Some ([Returned, Returned, Returned],
         [EvClose 1, EvRemove 1 ''/tmp/focotimer.pipe.4242''], {}, True)"
  by (simp add: initSys_def initPolybar_def stepCall_def setpc_def setOnce_def)

text \<open>While the loop is idle inside the open and the path is gone, nothing unblocks it.\<close>

lemma idleBlocked_stepCall:
  assumes "idleBlocked s" and "stepCall k s = Some s'"
  shows "idleBlocked s'"
  using assms
  by (cases "callers s k")
     (auto simp: idleBlocked_def stepCall_def setpc_def setOnce_def
           split: if_splits option.splits)

lemma idleBlocked_exec:
  assumes "idleBlocked s" and "exec a s = Some s'"
  shows "idleBlocked s'"
proof (cases a)
  case (Call k)
  with assms show ?thesis by (simp add: idleBlocked_stepCall)
qed (use assms in \<open>auto simp: idleBlocked_def stepLoop_def split: if_splits\<close>)

lemma idleBlocked_run:
  "idleBlocked s \<Longrightarrow> run acts s = Some s' \<Longrightarrow> idleBlocked s'"
proof (induction acts arbitrary: s)
  case Nil
  then show ?case by simp
next
  case (Cons a acts)
  from Cons.prems(2) obtain s1 where ex: "exec a s = Some s1" and rest: "run acts s1 = Some s'"
    by (auto split: option.splits)
  from Cons.IH [OF idleBlocked_exec [OF Cons.prems(1) ex] rest] show ?case .
qed

text \<open>
  C7 (the code at the input where it departs from the claim): \<open>Main\<close> has started the
  dispatch loop, which has passed the \<open>select\<close> at its head and sits in
  \<open>os.OpenFile\<close> on the pipe, with no writer. One invocation of \<open>Shutdown\<close> then
  closes \<open>stopping\<close>, removes the pipe file and reaches \<open>wg.Wait()\<close>: the stop signal
  is closed once, the file removed once, nobody has panicked. But the loop reads
  \<open>stopping\<close> only at its three \<open>select\<close>s, so it never exits; whatever the
  invocations, the loop and the writers do from there on, no invocation of \<open>Shutdown\<close>
  ever returns.
\<close>

theorem C7_Shutdown_blocks_with_idle_loop:
  "map_option
     (\<lambda>s. (loop s, writers s, callers s 0, stopping (pkg s), trace s, files s, wg (pkg s)))
     (run [LoopStart, LoopGo 0, LoopGo 0,
           Call 0, Call 0, Call 0, Call 0, Call 0, Call 0, Call 0, Call 0]
        (initSys ''/tmp/focotimer.pipe.4242'' {''/tmp/focotimer.pipe.4242''} () emptyWorld)) =
     Some (LOpening, 0, AtWait, True,
           [EvClose 0, EvRemove 0 ''/tmp/focotimer.pipe.4242''], {}, 1) \<and>
   \<not> (\<exists>acts s k.
        run ([LoopStart, LoopGo 0, LoopGo 0,
              Call 0, Call 0, Call 0, Call 0, Call 0, Call 0, Call 0, Call 0] @ acts)
          (initSys ''/tmp/focotimer.pipe.4242'' {''/tmp/focotimer.pipe.4242''} ()
             emptyWorld) = Some s \<and>
        callers s k = Returned)"
proof -
  let ?init = "initSys ''/tmp/focotimer.pipe.4242'' {''/tmp/focotimer.pipe.4242''} ()
                 emptyWorld :: unit sys"
  let ?pre = "[LoopStart, LoopGo 0, LoopGo 0,
               Call 0, Call 0, Call 0, Call 0, Call 0, Call 0, Call 0, Call 0]"
  have "\<exists>s0. run ?pre ?init = Some s0 \<and> idleBlocked s0 \<and>
          (loop s0, writers s0, callers s0 0, stopping (pkg s0), trace s0, files s0,
           wg (pkg s0)) =
          (LOpening, 0, AtWait, True,
           [EvClose 0, EvRemove 0 ''/tmp/focotimer.pipe.4242''], {}, 1)"
    by (simp add: initSys_def initPolybar_def stepCall_def stepLoop_def setpc_def
        setOnce_def idleBlocked_def)
  then obtain s0 where pre: "run ?pre ?init = Some s0" and idle: "idleBlocked s0"
    and obs: "(loop s0, writers s0, callers s0 0, stopping (pkg s0), trace s0, files s0,
           wg (pkg s0)) =
          (LOpening, 0, AtWait, True,
           [EvClose 0, EvRemove 0 ''/tmp/focotimer.pipe.4242''], {}, 1)"
    by blast
  have never: "\<not> (\<exists>acts s k. run (?pre @ acts) ?init = Some s \<and> callers s k = Returned)"
  proof
    assume "\<exists>acts s k. run (?pre @ acts) ?init = Some s \<and> callers s k = Returned"
    then obtain acts s k where r: "run (?pre @ acts) ?init = Some s"
      and ret: "callers s k = Returned" by blast
    from r pre have "run acts s0 = Some s" by (simp only: run_append) simp
    from idleBlocked_run [OF idle this] ret show False by (simp add: idleBlocked_def)
  qed
  from pre obs never show ?thesis by simp
qed


end
